theory Spec2Isabelle
  imports Complex_Main "HOL-Library.Monad_Syntax"
begin

section \<open>The Number values of the JavaScript runtime\<close>

text \<open>
  The swap page computes amounts with the runtime's Number type (IEEE-754 binary64) and
  prints them with \<^verbatim>\<open>Number.prototype.toString\<close>.  A finite Number is modelled by
  the rational it denotes; the two zeros are identified, as \<^verbatim>\<open>===\<close> does, and both
  print as \<^verbatim>\<open>0\<close>.
\<close>

datatype number = NaN | PosInf | NegInf | Finite rat

text \<open>\<open>ilen b a\<close> is the number of base-\<open>b\<close> digits of \<open>a\<close>; \<open>ilog b q\<close> is the integer \<open>l\<close> with \<open>b powi l \<le> q < b powi (l + 1)\<close>, for \<open>q > 0\<close>.\<close>

function ilen :: "int \<Rightarrow> int \<Rightarrow> int" where
  "ilen b a = (if 0 < a \<and> 1 < b then ilen b (a div b) + 1 else 0)"
  by pat_completeness auto
termination
  by (relation "measure (\<lambda>(b, a). nat a)") (auto simp: pos_imp_zdiv_neg_iff zdiv_mono2 intro: int_div_less_self)

declare ilen.simps [simp del]

definition ilog :: "int \<Rightarrow> rat \<Rightarrow> int" where
  "ilog b q =
     (let (n, d) = quotient_of q;
          l = ilen b n - ilen b d
      in if power_int (of_int b) l \<le> q then l else l - 1)"

text \<open>Rounding to the nearest integer, ties to even.\<close>

definition round_half_even :: "rat \<Rightarrow> int" where
  "round_half_even x =
     (let f = \<lfloor>x\<rfloor>; d = x - of_int f
      in if d < 1 / 2 then f
         else if 1 / 2 < d then f + 1
         else if even f then f else f + 1)"

text \<open>
  The Number value of a positive rational: 53 significant bits in the normal range,
  multiples of \<open>2 powi - 1074\<close> below it, infinity from \<open>2 ^ 1024\<close> on.
\<close>

definition round64_pos :: "rat \<Rightarrow> rat option" where
  "round64_pos a =
     (let e = max (ilog 2 a - 52) (- 1074);
          m = round_half_even (a * power_int 2 (- e))
      in if 971 < e \<or> (e = 971 \<and> m = 9007199254740992) then None
         else Some (of_int m * power_int 2 e))"

definition round64 :: "rat \<Rightarrow> number" where
  "round64 q =
     (if q = 0 then Finite 0
      else if 0 < q then (case round64_pos q of None \<Rightarrow> PosInf | Some r \<Rightarrow> Finite r)
      else (case round64_pos (- q) of None \<Rightarrow> NegInf | Some r \<Rightarrow> Finite (- r)))"

text \<open>The \<^verbatim>\<open>*\<close> operator on Numbers.\<close>

fun times_number :: "number \<Rightarrow> number \<Rightarrow> number" where
  "times_number NaN y = NaN"
| "times_number x NaN = NaN"
| "times_number (Finite a) (Finite b) = round64 (a * b)"
| "times_number (Finite a) PosInf = (if a = 0 then NaN else if 0 < a then PosInf else NegInf)"
| "times_number (Finite a) NegInf = (if a = 0 then NaN else if 0 < a then NegInf else PosInf)"
| "times_number PosInf (Finite b) = (if b = 0 then NaN else if 0 < b then PosInf else NegInf)"
| "times_number NegInf (Finite b) = (if b = 0 then NaN else if 0 < b then NegInf else PosInf)"
| "times_number PosInf PosInf = PosInf"
| "times_number PosInf NegInf = NegInf"
| "times_number NegInf PosInf = NegInf"
| "times_number NegInf NegInf = PosInf"

subsection \<open>Decimal digits\<close>

definition is_digit :: "char \<Rightarrow> bool" where
  "is_digit c = (48 \<le> (of_char c :: int) \<and> (of_char c :: int) \<le> 57)"

definition digit_val :: "char \<Rightarrow> int" where
  "digit_val c = of_char c - 48"

definition digit_char :: "int \<Rightarrow> char" where
  "digit_char d = char_of (48 + d)"

function digits_of :: "int \<Rightarrow> string" where
  "digits_of n = (if n < 10 then [digit_char n] else digits_of (n div 10) @ [digit_char (n mod 10)])"
  by pat_completeness auto
termination
  by (relation "measure nat") auto

declare digits_of.simps [simp del]

definition int_of_digits :: "string \<Rightarrow> int" where
  "int_of_digits ds = foldl (\<lambda>acc c. 10 * acc + digit_val c) 0 ds"

subsection \<open>Number.prototype.toString\<close>

text \<open>
  For a positive finite Number \<open>x\<close> the language definition asks for integers \<open>n\<close>,
  \<open>k\<close>, \<open>s\<close> with \<open>k \<ge> 1\<close>, \<open>10 ^ (k - 1) \<le> s < 10 ^ k\<close>, the Number value of
  \<open>s * 10 powi (n - k)\<close> equal to \<open>x\<close>, and \<open>k\<close> as small as possible.  With
  \<open>10 powi (n - 1) \<le> x < 10 powi n\<close>, the only \<open>k\<close>-digit decimals that can round to
  \<open>x\<close> are the two that enclose it; of two that qualify the closer one is taken, and
  of two that are equally close the one whose last digit is even.

  A result is a pair \<open>(s, n)\<close>: the digits \<open>s\<close> and the position \<open>n\<close> of the decimal
  point, so that the decimal denotes \<open>s * 10 powi (n - k)\<close> for the number \<open>k\<close> of digits
  of \<open>s\<close>.  \<open>with_exponent s b\<close> is the pair that denotes \<open>s * 10 powi b\<close>.

  Seventeen digits are known to suffice, so the search stops there; were it ever to end
  without a result, the Number would be printed with all its digits, which is exact
  since every Number is a multiple of \<open>2 powi - 1074\<close>.
\<close>

definition with_exponent :: "int \<Rightarrow> int \<Rightarrow> int \<times> int" where
  "with_exponent s b = (s, b + ilen 10 s)"

definition candidate :: "rat \<Rightarrow> int \<Rightarrow> nat \<Rightarrow> (int \<times> int) option" where
  "candidate x n k =
     (let b = n - int k;
          sc = power_int 10 b;
          lo = \<lfloor>x / sc\<rfloor>;
          hi = lo + 1;
          lo_ok = (round64 (of_int lo * sc) = Finite x);
          hi_ok = (round64 (of_int hi * sc) = Finite x);
          hi_res = (if hi = 10 ^ k then with_exponent (10 ^ (k - 1)) (b + 1)
                    else with_exponent hi b)
      in if lo_ok \<and> hi_ok then
           (if x - of_int lo * sc < of_int hi * sc - x then Some (with_exponent lo b)
            else if of_int hi * sc - x < x - of_int lo * sc then Some hi_res
            else if even lo then Some (with_exponent lo b)
            else Some hi_res)
         else if lo_ok then Some (with_exponent lo b)
         else if hi_ok then Some hi_res
         else None)"

definition all_digits :: "rat \<Rightarrow> int \<times> int" where
  "all_digits x = with_exponent \<lfloor>x * 10 ^ 1074\<rfloor> (- 1074)"

fun shortest :: "rat \<Rightarrow> int \<Rightarrow> nat \<Rightarrow> nat \<Rightarrow> int \<times> int" where
  "shortest x n k 0 = all_digits x"
| "shortest x n k (Suc fuel) =
     (case candidate x n k of Some r \<Rightarrow> r | None \<Rightarrow> shortest x n (Suc k) fuel)"

definition shortest_digits :: "rat \<Rightarrow> int \<times> int" where
  "shortest_digits x = shortest x (ilog 10 x + 1) 1 17"

definition format_digits :: "string \<Rightarrow> int \<Rightarrow> string" where
  "format_digits ds n =
     (let k = int (length ds)
      in if k \<le> n \<and> n \<le> 21 then ds @ replicate (nat (n - k)) (CHR ''0'')
         else if 0 < n \<and> n \<le> 21 then take (nat n) ds @ ''.'' @ drop (nat n) ds
         else if - 6 < n \<and> n \<le> 0 then ''0.'' @ replicate (nat (- n)) (CHR ''0'') @ ds
         else (let e = n - 1;
                   ex = (if e < 0 then ''-'' else ''+'') @ digits_of \<bar>e\<bar>
               in if k = 1 then ds @ ''e'' @ ex
                  else take 1 ds @ ''.'' @ drop 1 ds @ ''e'' @ ex))"

fun toString :: "number \<Rightarrow> string" where
  "toString NaN = ''NaN''"
| "toString PosInf = ''Infinity''"
| "toString NegInf = ''-Infinity''"
| "toString (Finite x) =
     (if x = 0 then ''0''
      else if x < 0 then
        (let (s, n) = shortest_digits (- x) in ''-'' @ format_digits (digits_of s) n)
      else (let (s, n) = shortest_digits x in format_digits (digits_of s) n))"

subsection \<open>Reading decimal literals; parseFloat\<close>

text \<open>
  The scanners read the longest prefix of their input that has the form they look for
  and return its value with the rest of the input.  An exponent part needs at least one
  digit; otherwise the letter \<^verbatim>\<open>e\<close> is not part of the literal.  An unsigned literal
  needs a digit before or after its point.
\<close>

definition scan_exponent :: "string \<Rightarrow> int \<times> string" where
  "scan_exponent s =
     (if s \<noteq> [] \<and> (hd s = CHR ''e'' \<or> hd s = CHR ''E'') then
        (let r = tl s;
             neg = (r \<noteq> [] \<and> hd r = CHR ''-'');
             t = (if r \<noteq> [] \<and> (hd r = CHR ''-'' \<or> hd r = CHR ''+'') then tl r else r);
             ds = takeWhile is_digit t
         in if ds = [] then (0, s)
            else (if neg then - int_of_digits ds else int_of_digits ds, dropWhile is_digit t))
      else (0, s))"

definition scan_unsigned :: "string \<Rightarrow> (rat \<times> string) option" where
  "scan_unsigned s =
     (let ip = takeWhile is_digit s;
          r1 = dropWhile is_digit s;
          dot = (r1 \<noteq> [] \<and> hd r1 = CHR ''.'');
          fp = (if dot then takeWhile is_digit (tl r1) else []);
          r2 = (if dot then dropWhile is_digit (tl r1) else r1)
      in if ip = [] \<and> fp = [] then None
         else (let (e, r3) = scan_exponent r2
               in Some (of_int (int_of_digits (ip @ fp)) * power_int 10 (e - int (length fp)),
                        r3)))"

text \<open>
  \<^verbatim>\<open>parseFloat\<close> skips leading white space, reads the longest prefix that is a signed
  decimal literal or \<^verbatim>\<open>Infinity\<close>, and rounds its value to a Number; without such a
  prefix the result is \<^verbatim>\<open>NaN\<close>.  Strings are sequences of 8-bit code units here, so
  white space is what falls in that range.
\<close>

definition is_space :: "char \<Rightarrow> bool" where
  "is_space c = ((of_char c :: int) \<in> {9, 10, 11, 12, 13, 32, 160})"

definition parseFloat :: "string \<Rightarrow> number" where
  "parseFloat s =
     (let t = dropWhile is_space s;
          neg = (t \<noteq> [] \<and> hd t = CHR ''-'');
          u = (if t \<noteq> [] \<and> (hd t = CHR ''-'' \<or> hd t = CHR ''+'') then tl t else t)
      in if take 8 u = ''Infinity'' then (if neg then NegInf else PosInf)
         else (case scan_unsigned u of
                 None \<Rightarrow> NaN
               | Some (v, rest) \<Rightarrow> round64 (if neg then - v else v)))"

section \<open>The order model (models/order.ts)\<close>

record OrderData =
  salt :: string
  src_chain :: number
  dst_chain :: number
  make_amount :: string
  take_amount :: string

record Signature =
  signed_message :: string
  signer_address :: string

record Order =
  order_data :: OrderData
  signature :: Signature

section \<open>JSON.stringify on the order model\<close>

text \<open>
  A string is quoted with the escapes of \<^verbatim>\<open>QuoteJSONString\<close>; a finite Number is
  printed by \<^verbatim>\<open>toString\<close>, any other Number as \<^verbatim>\<open>null\<close>; the properties of an
  object appear in the order in which the object literal lists them.
\<close>

definition hex_char :: "int \<Rightarrow> char" where
  "hex_char d = (if d < 10 then char_of (48 + d) else char_of (87 + d))"

definition quote_char :: "char \<Rightarrow> string" where
  "quote_char c =
     (if c = CHR 0x08 then [CHR 0x5C, CHR ''b'']
      else if c = CHR 0x09 then [CHR 0x5C, CHR ''t'']
      else if c = CHR 0x0A then [CHR 0x5C, CHR ''n'']
      else if c = CHR 0x0C then [CHR 0x5C, CHR ''f'']
      else if c = CHR 0x0D then [CHR 0x5C, CHR ''r'']
      else if c = CHR 0x22 then [CHR 0x5C, CHR 0x22]
      else if c = CHR 0x5C then [CHR 0x5C, CHR 0x5C]
      else if (of_char c :: int) < 32 then
        [CHR 0x5C, CHR ''u'', CHR ''0'', CHR ''0'',
         hex_char (of_char c div 16), hex_char (of_char c mod 16)]
      else [c])"

definition QuoteJSONString :: "string \<Rightarrow> string" where
  "QuoteJSONString s = CHR 0x22 # concat (map quote_char s) @ [CHR 0x22]"

definition json_number :: "number \<Rightarrow> string" where
  "json_number x = (case x of Finite q \<Rightarrow> toString x | _ \<Rightarrow> ''null'')"

definition json_key :: "string \<Rightarrow> string" where
  "json_key k = QuoteJSONString k @ '':''"

definition stringify_OrderData :: "OrderData \<Rightarrow> string" where
  "stringify_OrderData od =
     ''{'' @ json_key ''salt'' @ QuoteJSONString (salt od)
       @ '','' @ json_key ''src_chain'' @ json_number (src_chain od)
       @ '','' @ json_key ''dst_chain'' @ json_number (dst_chain od)
       @ '','' @ json_key ''make_amount'' @ QuoteJSONString (make_amount od)
       @ '','' @ json_key ''take_amount'' @ QuoteJSONString (take_amount od)
       @ ''}''"



section \<open>Decoding an order payload\<close>


definition unhex :: "char \<Rightarrow> int option" where
  "unhex c =
     (let v = (of_char c :: int)
      in if 48 \<le> v \<and> v \<le> 57 then Some (v - 48)
         else if 97 \<le> v \<and> v \<le> 102 then Some (v - 87)
         else if 65 \<le> v \<and> v \<le> 70 then Some (v - 55)
         else None)"











section \<open>The environment of the page\<close>

text \<open>
  The module \<^verbatim>\<open>rest-api\<close> and the \<^verbatim>\<open>environment\<close> constants are not part of the
  sources at hand: the base URL and the behaviour of \<^verbatim>\<open>RestApi.request\<close> are
  parameters.  A request that throws is \<open>None\<close>.

  The wallets are outside the program as well.  \<^verbatim>\<open>window.ethereum\<close> may be absent;
  when present, \<^verbatim>\<open>provider.getSigner()\<close> yields the selected account with its
  \<^verbatim>\<open>signMessage\<close>.  The Stellar kit's \<^verbatim>\<open>signMessage\<close> answers with the signed
  message and, optionally, the signer's address.  A refused or failed signing is
  \<open>None\<close>.  \<open>random36\<close> is the string \<^verbatim>\<open>Math.random().toString(36)\<close>.
\<close>

datatype js_value =
  Undefined | Null | Boolean bool | Number number | String string | Object

record secret_body =
  secret :: string

datatype body = Order_body Order | Secret_body secret_body

record RestApi =
  baseUrl :: string

record response =
  data :: js_value

record evm_signer =
  address :: string
  signMessage :: "string \<Rightarrow> string option"

record kit_signature =
  signedMessage :: string
  signerAddress :: "string option"

record environment =
  apiUrl :: string
  request :: "RestApi \<Rightarrow> string \<Rightarrow> string \<Rightarrow> body \<Rightarrow> response option"
  ethereum :: "evm_signer option"
  kit_signMessage :: "string \<Rightarrow> kit_signature option"
  random36 :: string

text \<open>What the page does to the outside is recorded as a list of effects.\<close>

datatype effect =
    Alert string
  | Console_error string
  | Http RestApi string string body

section \<open>The Relayer client (interstellar-api.ts)\<close>

definition getRestClient :: "environment \<Rightarrow> RestApi" where
  "getRestClient env = \<lparr>baseUrl = apiUrl env\<rparr>"

definition postOrder :: "environment \<Rightarrow> Order \<Rightarrow> effect list \<times> js_value option" where
  "postOrder env order =
     (let client = getRestClient env;
          response = request env client ''order'' ''POST'' (Order_body order)
      in ([Http client ''order'' ''POST'' (Order_body order)], map_option data response))"

definition postSecret :: "environment \<Rightarrow> string \<Rightarrow> effect list \<times> js_value option" where
  "postSecret env s =
     (let client = getRestClient env;
          response = request env client ''secret'' ''POST'' (Secret_body \<lparr>secret = s\<rparr>)
      in ([Http client ''secret'' ''POST'' (Secret_body \<lparr>secret = s\<rparr>)],
          map_option data response))"

section \<open>The swap page (swap.tsx)\<close>

text \<open>The state hooks of the component, with their initial values.\<close>

record swap_state =
  tokensPair :: string
  freighterConnected :: bool
  metamaskConnected :: bool
  stellarAddress :: "string option"
  evmAddress :: "string option"
  xlmBalance :: "number option"
  ethBalance :: "number option"
  fromAmount :: string
  advancedOpen :: bool
  resolverAddress :: string

definition initial_state :: swap_state where
  "initial_state =
     \<lparr>tokensPair = [], freighterConnected = False, metamaskConnected = False,
      stellarAddress = None, evmAddress = None, xlmBalance = None, ethBalance = None,
      fromAmount = [], advancedOpen = False, resolverAddress = []\<rparr>"

text \<open>\<^verbatim>\<open>a || ''\<close> on a value of type \<^verbatim>\<open>string | null\<close>, and truthiness.\<close>

definition or_empty :: "string option \<Rightarrow> string" where
  "or_empty a = (case a of None \<Rightarrow> [] | Some x \<Rightarrow> x)"

definition truthy_string :: "string option \<Rightarrow> bool" where
  "truthy_string a = (case a of None \<Rightarrow> False | Some x \<Rightarrow> x \<noteq> [])"

fun truthy :: "js_value \<Rightarrow> bool" where
  "truthy Undefined = False"
| "truthy Null = False"
| "truthy (Boolean b) = b"
| "truthy (Number x) = (x \<noteq> NaN \<and> x \<noteq> Finite 0)"
| "truthy (String x) = (x \<noteq> [])"
| "truthy Object = True"

definition substring :: "nat \<Rightarrow> nat \<Rightarrow> string \<Rightarrow> string" where
  "substring i j x = take (max i j - min i j) (drop (min i j) x)"

text \<open>The handler behind both \<^verbatim>\<open>Max\<close> buttons.\<close>

definition handleUseMax :: "swap_state \<Rightarrow> swap_state" where
  "handleUseMax st =
     (if tokensPair st = ''XLMETH'' \<and> xlmBalance st \<noteq> None then
        st\<lparr>fromAmount := toString (the (xlmBalance st))\<rparr>
      else if tokensPair st = ''ETHXLM'' \<and> ethBalance st \<noteq> None then
        st\<lparr>fromAmount := toString (the (ethBalance st))\<rparr>
      else st)"

text \<open>
  \<^verbatim>\<open>submitOrder\<close>: the order data are built from the state, signed by the wallet that
  belongs to the selected pair, and posted.  The result is the list of effects in the
  order they happen; \<open>None\<close> is the rejected promise of a signing that failed, which
  nothing catches.  \<open>orderData\<close> is the object literal of that name, \<open>0.95\<close> the
  binary64 number nearest to that literal, and \<open>send_order\<close> the \<^verbatim>\<open>try\<close> block that
  ends the function.  This is the current revision of the page.  The sources hold an
  earlier revision as well; its \<^verbatim>\<open>submitOrder\<close> differs only in declaring the signature
  without the initial value, so the two agree whenever the pair is \<^verbatim>\<open>ETHXLM\<close> or
  \<^verbatim>\<open>XLMETH\<close>, and with any other pair the earlier one posts a payload whose signature is
  undefined.
\<close>

definition orderData :: "environment \<Rightarrow> swap_state \<Rightarrow> OrderData" where
  "orderData env st =
     \<lparr>salt = substring 2 15 (random36 env),
      src_chain = (if tokensPair st = ''XLMETH'' then Finite 1 else Finite 2),
      dst_chain = (if tokensPair st = ''XLMETH'' then Finite 2 else Finite 1),
      make_amount = fromAmount st,
      take_amount = toString (times_number (parseFloat (fromAmount st)) (round64 (95 / 100)))\<rparr>"

definition send_order :: "environment \<Rightarrow> Order \<Rightarrow> effect list" where
  "send_order env payload =
     (case postOrder env payload of
        (sent, Some success) \<Rightarrow>
          sent @ (if \<not> truthy success then [Alert ''Failed to submit order''] else [])
      | (sent, None) \<Rightarrow>
          sent @ [Console_error ''Error submitting order:'', Alert ''Error submitting order''])"

definition submitOrder :: "environment \<Rightarrow> swap_state \<Rightarrow> effect list option" where
  "submitOrder env st =
     (let od = orderData env st
      in if tokensPair st = ''ETHXLM'' then
           (case ethereum env of
              None \<Rightarrow> Some [Alert ''MetaMask not installed'']
            | Some signer \<Rightarrow>
                (case signMessage signer (stringify_OrderData od) of
                   None \<Rightarrow> None
                 | Some signatureData \<Rightarrow>
                     Some (send_order env
                       \<lparr>order_data = od,
                        signature = \<lparr>signed_message = signatureData,
                                     signer_address = or_empty (evmAddress st)\<rparr>\<rparr>)))
         else if tokensPair st = ''XLMETH'' then
           (if \<not> freighterConnected st \<or> \<not> truthy_string (stellarAddress st) then
              Some [Alert ''Freighter not connected'']
            else
              (case kit_signMessage env (stringify_OrderData od) of
                 None \<Rightarrow> None
               | Some signatureData \<Rightarrow>
                   Some (send_order env
                     \<lparr>order_data = od,
                      signature =
                        \<lparr>signed_message = signedMessage signatureData,
                         signer_address =
                           (if truthy_string (signerAddress signatureData)
                            then the (signerAddress signatureData)
                            else or_empty (stellarAddress st))\<rparr>\<rparr>)))
         else
           Some (send_order env
             \<lparr>order_data = od,
              signature = \<lparr>signed_message = [], signer_address = []\<rparr>\<rparr>))"

subsection \<open>The handlers of the page as a transition system\<close>

text \<open>
  Each event is one thing the user or a wallet can do to the page, together with the
  answers the outside gives while its handler runs.  A control that is not rendered, or
  is disabled or hidden, does not react.

  \<^item> \<open>Click_connect_metamask answer formatted\<close>: \<open>answer\<close> is \<open>None\<close> without
    \<^verbatim>\<open>window.ethereum\<close>, \<open>Some None\<close> when \<^verbatim>\<open>eth_requestAccounts\<close> throws, and the
    accounts otherwise; \<open>formatted\<close> is the text \<^verbatim>\<open>formatEther\<close> gives for the balance,
    \<open>None\<close> when the balance cannot be fetched.
  \<^item> \<open>Accounts_changed accounts formatted\<close>: the wallet's \<^verbatim>\<open>accountsChanged\<close> event; a
    failing balance request is not caught there.
  \<^item> \<open>Click_switch_account answer\<close>: \<open>answer\<close> is \<open>None\<close> without
    \<^verbatim>\<open>window.ethereum\<close>, \<open>Some True\<close> when \<^verbatim>\<open>wallet_requestPermissions\<close> returns and
    \<open>Some False\<close> when it throws, which is logged.
  \<^item> \<open>Click_connect_freighter addr balance\<close>: \<open>addr\<close> is the address the kit gives,
    \<open>None\<close> when no wallet is selected or the kit fails; \<open>balance\<close> is \<open>None\<close> when the
    account cannot be loaded, and otherwise the native balance of the account, if it has
    one.
  \<^item> \<open>Click_submit env\<close>: the submit button, with the environment its handler meets.
\<close>

definition updateEvmAccount :: "string option \<Rightarrow> string option \<Rightarrow> swap_state \<Rightarrow> swap_state" where
  "updateEvmAccount addr formatted st =
     (if \<not> truthy_string addr then
        st\<lparr>metamaskConnected := False, evmAddress := None, ethBalance := None\<rparr>
      else
        (let st' = st\<lparr>evmAddress := addr, metamaskConnected := True\<rparr>
         in case formatted of
              None \<Rightarrow> st'
            | Some bal \<Rightarrow> st'\<lparr>ethBalance := Some (parseFloat bal)\<rparr>))"

definition reset_wallets :: "swap_state \<Rightarrow> swap_state" where
  "reset_wallets st =
     st\<lparr>freighterConnected := False, metamaskConnected := False, stellarAddress := None,
        evmAddress := None, xlmBalance := None, ethBalance := None, fromAmount := []\<rparr>"

datatype event =
    Select_pair string
  | Click_connect_metamask "string list option option" "string option"
  | Accounts_changed "string list" "string option"
  | Click_switch_account "bool option"
  | Click_connect_freighter "string option" "string option option"
  | Click_disconnect_freighter
  | Change_amount string
  | Click_max_xlm
  | Click_max_eth
  | Click_submit environment
  | Change_resolver string
  | Toggle_advanced bool

fun step :: "event \<Rightarrow> swap_state \<times> effect list \<Rightarrow> swap_state \<times> effect list" where
  "step (Select_pair p) (st, tr) =
     (if p = tokensPair st then (st, tr) else (reset_wallets (st\<lparr>tokensPair := p\<rparr>), tr))"
| "step (Click_connect_metamask answer formatted) (st, tr) =
     (if metamaskConnected st then (st, tr)
      else (case answer of
              None \<Rightarrow> (st, tr @ [Alert ''MetaMask not installed''])
            | Some None \<Rightarrow> (st, tr @ [Console_error ''Error connecting to MetaMask:''])
            | Some (Some []) \<Rightarrow> (st, tr)
            | Some (Some (a # as)) \<Rightarrow>
                (updateEvmAccount (Some a) formatted st,
                 if truthy_string (Some a) \<and> formatted = None
                 then tr @ [Console_error ''Error connecting to MetaMask:''] else tr)))"
| "step (Accounts_changed accounts formatted) (st, tr) =
     (case accounts of
        [] \<Rightarrow> (updateEvmAccount None formatted st, tr)
      | a # as \<Rightarrow> (updateEvmAccount (Some a) formatted st, tr))"
| "step (Click_switch_account answer) (st, tr) =
     (if \<not> metamaskConnected st then (st, tr)
      else (case answer of
              None \<Rightarrow> (st, tr)
            | Some granted \<Rightarrow>
                if granted then (st, tr)
                else (st, tr @ [Console_error ''Error requesting permissions:''])))"
| "step (Click_connect_freighter addr balance) (st, tr) =
     (if freighterConnected st then (st, tr)
      else (case addr of
              None \<Rightarrow> (st, tr)
            | Some a \<Rightarrow>
                (let st' = st\<lparr>freighterConnected := True, stellarAddress := Some a\<rparr>
                 in case balance of
                      None \<Rightarrow> (st', tr)
                    | Some b \<Rightarrow>
                        (st'\<lparr>xlmBalance :=
                               Some (parseFloat (if truthy_string b then the b else ''0''))\<rparr>,
                         tr))))"
| "step Click_disconnect_freighter (st, tr) =
     (if freighterConnected st then (st\<lparr>freighterConnected := False\<rparr>, tr) else (st, tr))"
| "step (Change_amount v) (st, tr) = (st\<lparr>fromAmount := v\<rparr>, tr)"
| "step Click_max_xlm (st, tr) =
     (if freighterConnected st \<and> xlmBalance st \<noteq> None then (handleUseMax st, tr) else (st, tr))"
| "step Click_max_eth (st, tr) =
     (if metamaskConnected st \<and> ethBalance st \<noteq> None then (handleUseMax st, tr) else (st, tr))"
| "step (Click_submit env) (st, tr) =
     (if \<not> metamaskConnected st \<and> \<not> freighterConnected st \<and> fromAmount st \<noteq> [] then (st, tr)
      else (case submitOrder env st of None \<Rightarrow> (st, tr) | Some effects \<Rightarrow> (st, tr @ effects)))"
| "step (Change_resolver v) (st, tr) = (st\<lparr>resolverAddress := v\<rparr>, tr)"
| "step (Toggle_advanced isOpen) (st, tr) =
     (if freighterConnected st \<or> metamaskConnected st then (st\<lparr>advancedOpen := isOpen\<rparr>, tr)
      else (st, tr))"

definition run :: "event list \<Rightarrow> swap_state \<times> effect list \<Rightarrow> swap_state \<times> effect list" where
  "run events w = foldl (\<lambda>w e. step e w) w events"

fun posts_to :: "string \<Rightarrow> effect \<Rightarrow> bool" where
  "posts_to endpoint (Http client ep method b) = (ep = endpoint \<and> method = ''POST'')"
| "posts_to endpoint (Alert msg) = False"
| "posts_to endpoint (Console_error msg) = False"

section \<open>Notions used to state the properties\<close>

text \<open>The orders that a list of effects posts to the \<^verbatim>\<open>order\<close> endpoint.\<close>

fun order_of :: "effect \<Rightarrow> Order option" where
  "order_of (Http client ep method (Order_body ord)) =
     (if ep = ''order'' \<and> method = ''POST'' then Some ord else None)"
| "order_of (Http client ep method (Secret_body s)) = None"
| "order_of (Alert msg) = None"
| "order_of (Console_error msg) = None"

definition posted_orders :: "effect list \<Rightarrow> Order list" where
  "posted_orders effects = List.map_filter order_of effects"

text \<open>
  The specification's reading of a signature: made by the wallet of the source chain over
  the JSON text of the order data, and naming that wallet by a non-empty address.  Chain
  \<open>2\<close> is the one the page signs with MetaMask, chain \<open>1\<close> the one it signs with the
  Stellar kit.
\<close>

definition signed_by_source_wallet :: "environment \<Rightarrow> Order \<Rightarrow> bool" where
  "signed_by_source_wallet env ord =
     (let msg = stringify_OrderData (order_data ord); sg = signature ord
      in if src_chain (order_data ord) = Finite 2 then
           (case ethereum env of
              None \<Rightarrow> False
            | Some signer \<Rightarrow>
                signMessage signer msg = Some (signed_message sg)
                \<and> signer_address sg = address signer \<and> signer_address sg \<noteq> [])
         else
           (case kit_signMessage env msg of
              None \<Rightarrow> False
            | Some r \<Rightarrow>
                signed_message sg = signedMessage r \<and> signer_address sg \<noteq> []
                \<and> (if truthy_string (signerAddress r)
                    then signer_address sg = the (signerAddress r) else True)))"

text \<open>A concrete environment and concrete states, for evaluating the page.\<close>

definition example_env :: environment where
  "example_env =
     \<lparr>apiUrl = ''http://localhost:8000'',
      request = (\<lambda>client ep method b. Some \<lparr>data = Boolean True\<rparr>),
      ethereum = Some \<lparr>address = ''0xA1'', signMessage = (\<lambda>msg. Some (''evm:'' @ msg))\<rparr>,
      kit_signMessage = (\<lambda>msg. Some \<lparr>signedMessage = ''xlm:'' @ msg, signerAddress = None\<rparr>),
      random36 = ''0.abcdefghijklmnop''\<rparr>"

definition xlm_state :: swap_state where
  "xlm_state =
     initial_state\<lparr>tokensPair := ''XLMETH'', freighterConnected := True,
       stellarAddress := Some ''GABC'', xlmBalance := Some (Finite 250), fromAmount := ''100''\<rparr>"

definition eth_state :: swap_state where
  "eth_state =
     initial_state\<lparr>tokensPair := ''ETHXLM'', freighterConnected := True,
       stellarAddress := Some ''GABC'', xlmBalance := Some (Finite 250), fromAmount := ''100''\<rparr>"

definition example_orderData :: "string \<Rightarrow> string \<Rightarrow> number \<Rightarrow> number \<Rightarrow> OrderData" where
  "example_orderData amount taken src dst =
     \<lparr>salt = ''abcdefghijklm'', src_chain = src, dst_chain = dst,
      make_amount = amount, take_amount = taken\<rparr>"

definition xlm_order :: Order where
  "xlm_order =
     \<lparr>order_data = example_orderData ''100'' ''95'' (Finite 1) (Finite 2),
      signature =
        \<lparr>signed_message =
           ''xlm:'' @ stringify_OrderData (example_orderData ''100'' ''95'' (Finite 1) (Finite 2)),
         signer_address = ''GABC''\<rparr>\<rparr>"

definition eth_order :: Order where
  "eth_order =
     \<lparr>order_data = example_orderData ''100'' ''95'' (Finite 2) (Finite 1),
      signature =
        \<lparr>signed_message =
           ''evm:'' @ stringify_OrderData (example_orderData ''100'' ''95'' (Finite 2) (Finite 1)),
         signer_address = []\<rparr>\<rparr>"

definition unsigned_order :: Order where
  "unsigned_order =
     \<lparr>order_data = example_orderData [] ''NaN'' (Finite 2) (Finite 1),
      signature = \<lparr>signed_message = [], signer_address = []\<rparr>\<rparr>"

definition posting :: "Order \<Rightarrow> effect" where
  "posting ord = Http \<lparr>baseUrl = ''http://localhost:8000''\<rparr> ''order'' ''POST'' (Order_body ord)"


text \<open>
  The number that a decimal string denotes: the whole string is a signed decimal
  literal.  A quantity is positive when its string denotes a positive number.
\<close>

definition decimal_value :: "string \<Rightarrow> rat option" where
  "decimal_value s =
     (let neg = (s \<noteq> [] \<and> hd s = CHR ''-'');
          u = (if s \<noteq> [] \<and> (hd s = CHR ''-'' \<or> hd s = CHR ''+'') then tl s else s)
      in case scan_unsigned u of
           None \<Rightarrow> None
         | Some (v, rest) \<Rightarrow> if rest = [] then Some (if neg then - v else v) else None)"

definition positive_decimal :: "string \<Rightarrow> bool" where
  "positive_decimal s = (case decimal_value s of None \<Rightarrow> False | Some v \<Rightarrow> 0 < v)"

text \<open>
  The amounts whose product with \<open>0.95\<close> stays among the normal binary64 numbers: the
  decimal strings that denote a number from \<open>1e-300\<close> to \<open>1e300\<close>.
\<close>

definition amount_in_range :: "string \<Rightarrow> bool" where
  "amount_in_range s =
     (case decimal_value s of
        None \<Rightarrow> False
      | Some v \<Rightarrow> 1 / 10 ^ 300 \<le> v \<and> v \<le> 10 ^ 300)"

text \<open>
  The specification's reading of the amounts of an order: \<open>take_amount\<close> denotes exactly
  ninety-five hundredths of what \<open>make_amount\<close> denotes.
\<close>

definition exact_take :: "OrderData \<Rightarrow> bool" where
  "exact_take od =
     (case decimal_value (make_amount od) of
        None \<Rightarrow> False
      | Some m \<Rightarrow> decimal_value (take_amount od) = Some (95 / 100 * m))"


definition amount_state :: "string \<Rightarrow> swap_state" where
  "amount_state v = xlm_state\<lparr>fromAmount := v\<rparr>"

definition amount_order :: "string \<Rightarrow> string \<Rightarrow> Order" where
  "amount_order amount taken =
     \<lparr>order_data = example_orderData amount taken (Finite 1) (Finite 2),
      signature =
        \<lparr>signed_message =
           ''xlm:'' @ stringify_OrderData (example_orderData amount taken (Finite 1) (Finite 2)),
         signer_address = ''GABC''\<rparr>\<rparr>"

text \<open>
  A decimal literal ends where the input ends or goes on with something that cannot
  continue it.
\<close>

definition literal_ends :: "string \<Rightarrow> bool" where
  "literal_ends r =
     (r = [] \<or> (\<not> is_digit (hd r) \<and> hd r \<noteq> CHR ''.'' \<and> hd r \<noteq> CHR ''e'' \<and> hd r \<noteq> CHR ''E''))"

text \<open>The number that a pair of digits and point position denotes.\<close>

definition denoted :: "int \<times> int \<Rightarrow> rat" where
  "denoted p = of_int (fst p) * power_int 10 (snd p - ilen 10 (fst p))"

section \<open>Properties of the runtime model\<close>

subsection \<open>Digits and decimal literals\<close>

lemma small_int_cases:
  fixes d :: int
  assumes "0 \<le> d" "d < 10"
  shows "d = 0 \<or> d = 1 \<or> d = 2 \<or> d = 3 \<or> d = 4 \<or> d = 5 \<or> d = 6 \<or> d = 7 \<or> d = 8 \<or> d = 9"
  using assms by presburger

lemma is_digit_digit_char: "0 \<le> d \<Longrightarrow> d < 10 \<Longrightarrow> is_digit (digit_char d)"
  using small_int_cases[of d] by (auto simp: is_digit_def digit_char_def)

lemma digit_val_digit_char: "0 \<le> d \<Longrightarrow> d < 10 \<Longrightarrow> digit_val (digit_char d) = d"
  using small_int_cases[of d] by (auto simp: digit_val_def digit_char_def)

lemma digit_char_eq_iff:
  "0 \<le> d \<Longrightarrow> d < 10 \<Longrightarrow> digit_char d \<noteq> CHR ''.'' \<and> digit_char d \<noteq> CHR ''e''
     \<and> digit_char d \<noteq> CHR ''E'' \<and> digit_char d \<noteq> CHR ''-'' \<and> digit_char d \<noteq> CHR ''+''"
  using small_int_cases[of d] by (auto simp: digit_char_def char_of_eq_iff)

lemma digits_of_digits: "0 \<le> n \<Longrightarrow> list_all is_digit (digits_of n)"
proof (induction n rule: digits_of.induct)
  case (1 n)
  show ?case
  proof (cases "n < 10")
    case True
    with 1 show ?thesis by (simp add: digits_of.simps[of n] is_digit_digit_char)
  next
    case False
    with 1 have "list_all is_digit (digits_of (n div 10))" by simp
    moreover have "is_digit (digit_char (n mod 10))" by (simp add: is_digit_digit_char)
    ultimately show ?thesis using False by (simp add: digits_of.simps[of n])
  qed
qed

lemma digits_of_nonempty [simp]: "digits_of n \<noteq> []"
  by (subst digits_of.simps) simp

lemma int_of_digits_append:
  "int_of_digits (xs @ ys) = int_of_digits xs * 10 ^ length ys + int_of_digits ys"
proof (induction ys rule: rev_induct)
  case Nil
  show ?case by (simp add: int_of_digits_def)
next
  case (snoc y ys)
  have "int_of_digits (xs @ ys @ [y]) = 10 * int_of_digits (xs @ ys) + digit_val y"
    by (simp add: int_of_digits_def)
  also have "\<dots> = 10 * (int_of_digits xs * 10 ^ length ys + int_of_digits ys) + digit_val y"
    by (simp add: snoc.IH)
  also have "\<dots> = int_of_digits xs * 10 ^ length (ys @ [y]) + int_of_digits (ys @ [y])"
    by (simp add: int_of_digits_def algebra_simps)
  finally show ?case by simp
qed

lemma int_of_digits_single [simp]: "int_of_digits [c] = digit_val c"
  by (simp add: int_of_digits_def)

lemma int_of_digits_Nil [simp]: "int_of_digits [] = 0"
  by (simp add: int_of_digits_def)

lemma int_of_digits_digits_of: "0 \<le> n \<Longrightarrow> int_of_digits (digits_of n) = n"
proof (induction n rule: digits_of.induct)
  case (1 n)
  show ?case
  proof (cases "n < 10")
    case True
    with 1 show ?thesis by (simp add: digits_of.simps[of n] digit_val_digit_char)
  next
    case False
    with 1 have "int_of_digits (digits_of (n div 10)) = n div 10" by simp
    then show ?thesis using False
      by (simp add: digits_of.simps[of n] int_of_digits_append digit_val_digit_char)
  qed
qed

lemma int_of_digits_zeros [simp]: "int_of_digits (replicate z (CHR ''0'')) = 0"
  by (induction z) (simp_all add: int_of_digits_append[of "[CHR ''0'']", simplified] digit_val_def int_of_digits_def)

lemma length_digits_of: "0 < n \<Longrightarrow> int (length (digits_of n)) = ilen 10 n"
proof (induction n rule: digits_of.induct)
  case (1 n)
  show ?case
  proof (cases "n < 10")
    case True
    with 1 have "n div 10 = 0" by simp
    then have "ilen 10 n = 1" using 1(2) by (simp add: ilen.simps[of 10 n] ilen.simps[of 10 0])
    then show ?thesis using True by (simp add: digits_of.simps[of n])
  next
    case False
    with 1 have "int (length (digits_of (n div 10))) = ilen 10 (n div 10)" by simp
    then show ?thesis using False 1(2)
      by (simp add: digits_of.simps[of n] ilen.simps[of 10 n])
  qed
qed


lemma takeWhile_digits:
  assumes "list_all is_digit ds" and "r = [] \<or> \<not> is_digit (hd r)"
  shows "takeWhile is_digit (ds @ r) = ds" and "dropWhile is_digit (ds @ r) = r"
proof -
  have "takeWhile is_digit r = []" "dropWhile is_digit r = r"
    using assms(2) by (cases r; simp)+
  moreover have "\<And>x. x \<in> set ds \<Longrightarrow> is_digit x"
    using assms(1) by (simp add: list_all_iff)
  ultimately show "takeWhile is_digit (ds @ r) = ds" "dropWhile is_digit (ds @ r) = r"
    by (simp_all add: takeWhile_append2 dropWhile_append2)
qed

lemma not_digit_simps [simp]:
  "\<not> is_digit (CHR ''.'')" "\<not> is_digit (CHR ''e'')" "\<not> is_digit (CHR ''E'')"
  "\<not> is_digit (CHR ''-'')" "\<not> is_digit (CHR ''+'')" "\<not> is_digit (CHR '','')"
  "\<not> is_digit (CHR ''}'')" "is_digit (CHR ''0'')"
  by (simp_all add: is_digit_def)

lemma scan_exponent_none: "literal_ends r \<Longrightarrow> scan_exponent r = (0, r)"
  by (auto simp: literal_ends_def scan_exponent_def)

lemma scan_exponent_written:
  assumes "0 \<le> e" and "r = [] \<or> \<not> is_digit (hd r)" and "sg = ''-'' \<or> sg = ''+''"
  shows "scan_exponent (''e'' @ sg @ digits_of e @ r) = (if sg = ''-'' then - e else e, r)"
proof -
  have d: "list_all is_digit (digits_of e)" using assms(1) by (rule digits_of_digits)
  note tw = takeWhile_digits[OF d assms(2)]
  have v: "int_of_digits (digits_of e) = e" using assms(1) by (rule int_of_digits_digits_of)
  from assms(3) show ?thesis
    by (auto simp: scan_exponent_def Let_def tw v)
qed

lemma scan_unsigned_shape:
  assumes ip: "list_all is_digit ip" and fp: "list_all is_digit fp"
    and ne: "ip \<noteq> [] \<or> fp \<noteq> []"
    and tl: "tail = [] \<or> (\<not> is_digit (hd tail) \<and> hd tail \<noteq> CHR ''.'')"
    and ex: "scan_exponent tail = (e, rest)"
  shows "scan_unsigned (ip @ (if fp = [] then [] else ''.'' @ fp) @ tail)
           = Some (of_int (int_of_digits (ip @ fp)) * power_int 10 (e - int (length fp)), rest)"
proof (cases "fp = []")
  case True
  have "tail = [] \<or> \<not> is_digit (hd tail)" using tl by auto
  note tw = takeWhile_digits[OF ip this]
  have nd: "\<not> (tail \<noteq> [] \<and> hd tail = CHR ''.'')" using tl by auto
  from True ne nd show ?thesis
    by (auto simp: scan_unsigned_def Let_def tw ex)
next
  case False
  have 1: "(''.'' @ fp @ tail) = [] \<or> \<not> is_digit (hd (''.'' @ fp @ tail))" by simp
  note tw1 = takeWhile_digits[OF ip 1]
  have "tail = [] \<or> \<not> is_digit (hd tail)" using tl by auto
  note tw2 = takeWhile_digits[OF fp this]
  from False show ?thesis
    using tw1 tw2 by (simp add: scan_unsigned_def Let_def ex)
qed

lemma list_all_zeros [simp]: "list_all is_digit (replicate z (CHR ''0''))"
  by (simp add: list_all_iff)

lemma scan_unsigned_format:
  assumes s: "0 < s" and r: "literal_ends rest"
  shows "scan_unsigned (format_digits (digits_of s) n @ rest)
           = Some (of_int s * power_int 10 (n - ilen 10 s), rest)"
proof -
  define ds where "ds = digits_of s"
  define k where "k = int (length ds)"
  have d: "list_all is_digit ds" using s by (simp add: ds_def digits_of_digits)
  have v: "int_of_digits ds = s" using s by (simp add: ds_def int_of_digits_digits_of)
  have kk: "k = ilen 10 s" using s by (simp add: k_def ds_def length_digits_of)
  have kpos: "0 < k" by (simp add: k_def ds_def)
  have r0: "scan_exponent rest = (0, rest)" using r by (rule scan_exponent_none)
  have r1: "rest = [] \<or> (\<not> is_digit (hd rest) \<and> hd rest \<noteq> CHR ''.'')"
    using r by (auto simp: literal_ends_def)
  have r2: "rest = [] \<or> \<not> is_digit (hd rest)" using r1 by auto
  consider (a) "k \<le> n" "n \<le> 21" | (b) "0 < n" "n < k" "n \<le> 21"
    | (c) "- 6 < n" "n \<le> 0" | (d) "21 < n \<or> n \<le> - 6"
    by linarith
  then show ?thesis
  proof cases
    case a
    define z where "z = nat (n - k)"
    have "scan_unsigned ((ds @ replicate z (CHR ''0'')) @ rest)
            = Some (of_int (int_of_digits (ds @ replicate z (CHR ''0''))), rest)"
      using scan_unsigned_shape[of "ds @ replicate z (CHR ''0'')" "[]" rest 0 rest] d r1 r0
      by (simp add: ds_def)
    moreover have "of_int (int_of_digits (ds @ replicate z (CHR ''0''))) = (of_int s :: rat) * 10 ^ z"
      by (simp add: int_of_digits_append v)
    moreover have "(10::rat) ^ z = power_int 10 (n - k)"
      using a by (simp add: z_def power_int_def)
    ultimately show ?thesis
      using a by (simp add: format_digits_def Let_def ds_def[symmetric] k_def[symmetric] z_def kk)
  next
    case b
    define ip where "ip = take (nat n) ds"
    define fp where "fp = drop (nat n) ds"
    have i: "list_all is_digit ip" and f: "list_all is_digit fp"
      using d by (auto simp: ip_def fp_def list_all_iff dest: in_set_takeD in_set_dropD)
    have fne: "fp \<noteq> []" using b by (simp add: fp_def k_def)
    have lf: "int (length fp) = k - n" using b by (simp add: fp_def k_def)
    have "scan_unsigned (ip @ (if fp = [] then [] else ''.'' @ fp) @ rest)
            = Some (of_int (int_of_digits (ip @ fp)) * power_int 10 (0 - int (length fp)), rest)"
      by (rule scan_unsigned_shape) (use i f fne r1 r0 in simp_all)
    moreover have "ip @ fp = ds" by (simp add: ip_def fp_def)
    ultimately show ?thesis
      using b fne
      by (simp add: format_digits_def Let_def ds_def[symmetric] k_def[symmetric]
            ip_def[symmetric] fp_def[symmetric] v lf kk[symmetric])
  next
    case c
    define fp where "fp = replicate (nat (- n)) (CHR ''0'') @ ds"
    have f: "list_all is_digit fp" using d by (simp add: fp_def)
    have fne: "fp \<noteq> []" by (simp add: fp_def ds_def)
    have lf: "int (length fp) = k - n" using c by (simp add: fp_def k_def)
    have "scan_unsigned (''0'' @ (if fp = [] then [] else ''.'' @ fp) @ rest)
            = Some (of_int (int_of_digits (''0'' @ fp)) * power_int 10 (0 - int (length fp)), rest)"
      by (rule scan_unsigned_shape) (use f fne r1 r0 in simp_all)
    moreover have "int_of_digits (''0'' @ fp) = s"
    proof -
      have "''0'' @ fp = replicate (Suc (nat (- n))) (CHR ''0'') @ ds"
        by (simp add: fp_def)
      then show ?thesis
        by (simp only: int_of_digits_append int_of_digits_zeros v)
    qed
    ultimately show ?thesis
      using c kpos fne
      by (simp add: format_digits_def Let_def ds_def[symmetric] k_def[symmetric]
            fp_def[symmetric] lf kk[symmetric])
  next
    case d
    define e where "e = n - 1"
    define sg where "sg = (if e < 0 then ''-'' else ''+'')"
    define tail where "tail = ''e'' @ sg @ digits_of \<bar>e\<bar> @ rest"
    have sg: "sg = ''-'' \<or> sg = ''+''" by (simp add: sg_def)
    have ex: "scan_exponent tail = (e, rest)"
      unfolding tail_def using scan_exponent_written[OF _ r2 sg, of "\<bar>e\<bar>"]
      by (auto simp: sg_def)
    have tl: "tail = [] \<or> (\<not> is_digit (hd tail) \<and> hd tail \<noteq> CHR ''.'')"
      by (simp add: tail_def)
    define ip where "ip = take 1 ds"
    define fp where "fp = drop 1 ds"
    have i: "list_all is_digit ip" and f: "list_all is_digit fp"
      using d \<open>list_all is_digit ds\<close>
      by (auto simp: ip_def fp_def list_all_iff dest: in_set_takeD in_set_dropD)
    have ine: "ip \<noteq> []" by (simp add: ip_def ds_def)
    have lf: "int (length fp) = k - 1" using kpos by (cases ds) (simp_all add: fp_def k_def)
    have sc: "scan_unsigned (ip @ (if fp = [] then [] else ''.'' @ fp) @ tail)
            = Some (of_int (int_of_digits (ip @ fp)) * power_int 10 (e - int (length fp)), rest)"
      by (rule scan_unsigned_shape) (use i f ine tl ex in simp_all)
    have split: "ip @ fp = ds" by (simp add: ip_def fp_def)
    have k1: "fp = [] \<longleftrightarrow> k = 1" using kpos lf by auto
    have c1: "\<not> (k \<le> n \<and> n \<le> 21)" "\<not> (0 < n \<and> n \<le> 21)" "\<not> (- 6 < n \<and> n \<le> 0)"
      using d kpos by auto
    have fmt: "format_digits ds n @ rest = ip @ (if fp = [] then [] else ''.'' @ fp) @ tail"
    proof (cases "k = 1")
      case True
      then have "fp = []" using k1 by simp
      then have "ip = ds" using split by simp
      with True \<open>fp = []\<close> d show ?thesis
        by (cases "21 < n")
           (simp_all add: format_digits_def Let_def k_def[symmetric] tail_def sg_def e_def)
    next
      case False
      then have "fp \<noteq> []" using k1 by simp
      with False d kpos show ?thesis
        by (cases "21 < n")
           (simp_all add: format_digits_def Let_def k_def[symmetric] tail_def sg_def e_def
              ip_def fp_def)
    qed
    have "e - int (length fp) = n - k" by (simp add: lf e_def)
    with sc fmt split show ?thesis
      by (simp add: ds_def[symmetric] v kk[symmetric])
  qed
qed

subsection \<open>The digits that toString chooses\<close>

lemma denoted_with_exponent [simp]: "denoted (with_exponent s b) = of_int s * power_int 10 b"
  by (simp add: denoted_def with_exponent_def)

lemma fst_with_exponent [simp]: "fst (with_exponent s b) = s"
  by (simp add: with_exponent_def)

lemma round64_zero [simp]: "round64 0 = Finite 0"
  by (simp add: round64_def)

lemma candidate_sound:
  assumes x: "0 < x" and k: "0 < k" and c: "candidate x n k = Some p"
  shows "0 < fst p \<and> round64 (denoted p) = Finite x"
proof -
  define b where "b = n - int k"
  define sc :: rat where "sc = power_int 10 b"
  define lo where "lo = \<lfloor>x / sc\<rfloor>"
  have scpos: "0 < sc" by (simp add: sc_def)
  have lo0: "0 \<le> lo" using x scpos by (simp add: lo_def)
  have hi_val: "(of_int (10 ^ (k - 1)) :: rat) * power_int 10 (b + 1) = of_int (10 ^ k) * sc"
  proof -
    have "(10::rat) ^ k = 10 ^ (k - 1) * 10" using k by (cases k) simp_all
    then show ?thesis by (simp add: sc_def power_int_add)
  qed
  have lo_case: "0 < lo" if "round64 (of_int lo * sc) = Finite x"
  proof (rule ccontr)
    assume "\<not> 0 < lo"
    with lo0 have "lo = 0" by simp
    with that x show False by simp
  qed
  have hi_pos: "0 < fst (if lo + 1 = 10 ^ k then with_exponent (10 ^ (k - 1)) (b + 1)
                    else with_exponent (lo + 1) b)"
    using lo0 by simp
  have hi_den: "denoted (if lo + 1 = 10 ^ k then with_exponent (10 ^ (k - 1)) (b + 1)
                    else with_exponent (lo + 1) b) = of_int (lo + 1) * sc"
  proof (cases "lo + 1 = 10 ^ k")
    case True
    show ?thesis
      unfolding True using hi_val by (simp only: simp_thms if_True denoted_with_exponent)
  next
    case False
    then show ?thesis by (simp add: sc_def)
  qed
  from c consider
      (lo) "round64 (of_int lo * sc) = Finite x" "p = with_exponent lo b"
    | (hi) "round64 (of_int (lo + 1) * sc) = Finite x"
           "p = (if lo + 1 = 10 ^ k then with_exponent (10 ^ (k - 1)) (b + 1)
                    else with_exponent (lo + 1) b)"
    unfolding candidate_def Let_def b_def[symmetric] sc_def[symmetric] lo_def[symmetric]
    by (auto split: if_splits)
  then show ?thesis
  proof cases
    case lo
    then show ?thesis using lo_case by (simp add: sc_def)
  next
    case hi
    show ?thesis unfolding hi(2) using hi_pos hi_den hi(1) by simp
  qed
qed

lemma floor_scaled_grid:
  fixes x :: rat
  assumes "x = of_int m * power_int 2 (- int N)"
  shows "x * 10 ^ N = of_int (m * 5 ^ N)"
proof -
  have "(10::rat) ^ N = 2 ^ N * 5 ^ N"
    by (simp flip: power_mult_distrib)
  moreover have "power_int (2::rat) (- int N) * 2 ^ N = 1"
    by (simp add: power_int_minus)
  ultimately have "x * 10 ^ N = of_int m * (power_int 2 (- int N) * 2 ^ N) * 5 ^ N"
    using assms by (simp add: algebra_simps)
  also have "\<dots> = of_int (m * 5 ^ N)"
    using \<open>power_int (2::rat) (- int N) * 2 ^ N = 1\<close> by simp
  finally show ?thesis .
qed

lemma all_digits_general:
  fixes x :: rat
  assumes g: "x = of_int m * power_int 2 (- int N)" and x: "0 < x"
  shows "0 < \<lfloor>x * 10 ^ N\<rfloor> \<and> of_int \<lfloor>x * 10 ^ N\<rfloor> * power_int 10 (- int N) = x"
proof -
  have e: "x * 10 ^ N = of_int (m * 5 ^ N)" using g by (rule floor_scaled_grid)
  then have f: "\<lfloor>x * 10 ^ N\<rfloor> = m * 5 ^ N" by (simp only: floor_of_int)
  have "0 < x * 10 ^ N" using x by simp
  then have "0 < m * 5 ^ N" using e by (simp only: of_int_0_less_iff[symmetric, where 'a=rat])
  moreover have "of_int (m * 5 ^ N) * power_int 10 (- int N) = x"
  proof -
    have "of_int (m * 5 ^ N) * power_int 10 (- int N) = (x * 10 ^ N) * power_int 10 (- int N)"
      using e by simp
    also have "\<dots> = x" by (simp add: power_int_minus)
    finally show ?thesis .
  qed
  ultimately show ?thesis using f by simp
qed

lemma all_digits_exact:
  assumes g: "\<exists>m. x = of_int m * power_int 2 (- 1074)" and x: "0 < x"
  shows "0 < fst (all_digits x) \<and> denoted (all_digits x) = x"
proof -
  from g obtain m where "x = of_int m * power_int 2 (- int 1074)" by auto
  from all_digits_general[OF this x] show ?thesis
    unfolding all_digits_def by (simp only: fst_with_exponent denoted_with_exponent of_nat_numeral)
qed

lemma shortest_sound:
  assumes x: "0 < x" and g: "\<exists>m. x = of_int m * power_int 2 (- 1074)"
  shows "0 < k \<Longrightarrow> 0 < fst (shortest x n k fuel)
           \<and> (round64 (denoted (shortest x n k fuel)) = Finite x \<or> denoted (shortest x n k fuel) = x)"
proof (induction fuel arbitrary: k)
  case 0
  then show ?case using all_digits_exact[OF g x] by simp
next
  case (Suc fuel)
  show ?case
  proof (cases "candidate x n k")
    case None
    then show ?thesis using Suc.IH[of "Suc k"] by simp
  next
    case (Some p)
    from candidate_sound[OF x Suc.prems Some] Some show ?thesis by simp
  qed
qed

lemma power_int_split:
  fixes N :: nat
  assumes "- int N \<le> e"
  shows "power_int (2::rat) e = 2 ^ nat (e + int N) * power_int 2 (- int N)"
proof -
  have "power_int (2::rat) e = power_int 2 ((e + int N) + (- int N))" by simp
  also have "\<dots> = power_int 2 (e + int N) * power_int 2 (- int N)"
    by (rule power_int_add) simp
  also have "power_int (2::rat) (e + int N) = 2 ^ nat (e + int N)"
    using assms by (simp add: power_int_def)
  finally show ?thesis .
qed

lemma round64_grid:
  assumes "round64 q = Finite r"
  shows "\<exists>m. r = of_int m * power_int 2 (- 1074)"
proof -
  have pos: "\<exists>m. r = of_int m * power_int 2 (- 1074)" if "round64_pos a = Some r" for a r
  proof -
    define e where "e = max (ilog 2 a - 52) (- 1074)"
    define m where "m = round_half_even (a * power_int 2 (- e))"
    have r: "r = of_int m * power_int 2 e"
      using that unfolding round64_pos_def Let_def e_def[symmetric] m_def[symmetric]
      by (auto split: if_splits)
    have "- int 1074 \<le> e" by (simp add: e_def)
    from power_int_split[OF this]
    have "r = of_int (m * 2 ^ nat (e + int 1074)) * power_int 2 (- int 1074)"
      unfolding r by (simp only: of_int_mult of_int_power of_int_numeral mult.assoc)
    then have "r = of_int (m * 2 ^ nat (e + int 1074)) * power_int 2 (- 1074)"
      by (simp only: of_nat_numeral)
    then show ?thesis by blast
  qed
  show ?thesis
  proof (cases "q = 0")
    case True
    with assms have "r = of_int 0 * power_int 2 (- 1074)" by simp
    then show ?thesis by blast
  next
    case False
    show ?thesis
    proof (cases "0 < q")
      case True
      with False assms obtain r' where "round64_pos q = Some r'" "r = r'"
        by (auto simp: round64_def split: option.splits)
      with pos show ?thesis by blast
    next
      case neg: False
      with False assms obtain r' where r': "round64_pos (- q) = Some r'" "r = - r'"
        by (auto simp: round64_def split: option.splits)
      from pos[OF r'(1)] obtain m where "r' = of_int m * power_int 2 (- 1074)" by blast
      then have "r = of_int (- m) * power_int 2 (- 1074)" using r'(2) by simp
      then show ?thesis by blast
    qed
  qed
qed

lemma round64_minus:
  assumes "round64 q = Finite r"
  shows "round64 (- q) = Finite (- r)"
  using assms by (auto simp: round64_def split: option.splits if_splits)

subsection \<open>Reading back what toString prints\<close>

lemma format_digits_hd:
  assumes "ds \<noteq> []" and "list_all is_digit ds"
  shows "\<exists>c r. format_digits ds n = c # r \<and> is_digit c"
proof -
  obtain d ds' where ds: "ds = d # ds'" using assms(1) by (cases ds) auto
  then have d: "is_digit d" using assms(2) by simp
  have k: "0 < int (length ds)" using ds by simp
  consider (a) "int (length ds) \<le> n" "n \<le> 21" | (b) "0 < n" "n < int (length ds)" "n \<le> 21"
    | (c) "- 6 < n" "n \<le> 0" | (d) "21 < n" | (e) "n \<le> - 6"
    by linarith
  then show ?thesis
  proof cases
    case a
    then show ?thesis using d by (simp add: format_digits_def Let_def ds)
  next
    case b
    then obtain j where "nat n = Suc j" by (cases "nat n") auto
    with b show ?thesis using d by (simp add: format_digits_def Let_def ds)
  next
    case c
    with k have "\<not> int (length ds) \<le> n" by linarith
    with c show ?thesis by (simp add: format_digits_def Let_def)
  next
    case d
    then show ?thesis using \<open>is_digit d\<close> by (simp add: format_digits_def Let_def ds)
  next
    case e
    then show ?thesis using d k by (simp add: format_digits_def Let_def ds)
  qed
qed

lemma shortest_digits_sound:
  assumes "0 < x" and "round64 x = Finite x"
  shows "0 < fst (shortest_digits x) \<and> round64 (denoted (shortest_digits x)) = Finite x"
proof -
  have g: "\<exists>m. x = of_int m * power_int 2 (- 1074)" using assms(2) by (rule round64_grid)
  from shortest_sound[OF assms(1) g, of 1 "ilog 10 x + 1" 17] assms(2)
  show ?thesis by (auto simp: shortest_digits_def)
qed

text \<open>What a scanner reads from the text of a positive Number.\<close>

lemma scan_printed:
  assumes x: "0 < x" and f: "round64 x = Finite x" and r: "literal_ends rest"
  shows "\<exists>v c t. toString (Finite x) = c # t \<and> is_digit c
           \<and> scan_unsigned (toString (Finite x) @ rest) = Some (v, rest)
           \<and> 0 < v \<and> round64 v = Finite x"
proof -
  obtain s n where sn: "shortest_digits x = (s, n)" by (cases "shortest_digits x")
  from shortest_digits_sound[OF x f] sn
  have s: "0 < s" and v: "round64 (denoted (s, n)) = Finite x" by simp_all
  have ts: "toString (Finite x) = format_digits (digits_of s) n"
    using x sn by simp
  have "list_all is_digit (digits_of s)" using s by (simp add: digits_of_digits)
  from format_digits_hd[OF digits_of_nonempty this, of n]
  obtain c t where ct: "format_digits (digits_of s) n = c # t" "is_digit c" by blast
  have "scan_unsigned (format_digits (digits_of s) n @ rest) = Some (denoted (s, n), rest)"
    using scan_unsigned_format[OF s r, of n] by (simp add: denoted_def)
  moreover have "0 < denoted (s, n)" using s by (simp add: denoted_def)
  ultimately show ?thesis using ts ct v by auto
qed

lemma toString_negative:
  assumes "x < 0"
  shows "toString (Finite x) = CHR ''-'' # toString (Finite (- x))"
  using assms by (simp add: split_def Let_def)


lemma parseFloat_printed:
  assumes f: "round64 q = Finite q"
  shows "parseFloat (toString (Finite q)) = Finite q"
proof -
  have e: "literal_ends []" by (simp add: literal_ends_def)
  have sp: "\<not> is_space c" if "is_digit c \<or> c = CHR ''-''" for c
    using that by (auto simp: is_space_def is_digit_def)
  have inf: "take 8 (c # t) \<noteq> ''Infinity''" if "is_digit c" for c t
    using that by (auto simp: is_digit_def)
  consider (zero) "q = 0" | (pos) "0 < q" | (neg) "q < 0" by linarith
  then show ?thesis
  proof cases
    case zero
    have "scan_unsigned ''0'' = Some (0, [])"
      using scan_unsigned_shape[of "''0''" "[]" "[]" 0 "[]"] scan_exponent_none[OF e]
      by (simp add: digit_val_def)
    then show ?thesis
      using sp[of "CHR ''0''"] by (simp add: parseFloat_def zero)
  next
    case pos
    from scan_printed[OF pos f e] obtain v c t where
      *: "toString (Finite q) = c # t" "is_digit c"
      "scan_unsigned (toString (Finite q)) = Some (v, [])" "round64 v = Finite q"
      by auto
    moreover from * have "c \<noteq> CHR ''-''" "c \<noteq> CHR ''+''" by auto
    ultimately show ?thesis
      using sp[of c] inf[of c t] by (simp add: parseFloat_def del: toString.simps)
  next
    case neg
    then have p: "0 < - q" by simp
    have fq: "round64 (- q) = Finite (- q)" using f by (rule round64_minus)
    from scan_printed[OF p fq e] obtain v c t where
      *: "toString (Finite (- q)) = c # t" "is_digit c"
      "scan_unsigned (toString (Finite (- q))) = Some (v, [])" "round64 v = Finite (- q)"
      by auto
    have "round64 (- v) = Finite q" using round64_minus[OF *(4)] by simp
    with * show ?thesis
      using sp[of "CHR ''-''"] inf[of c t]
      by (simp add: parseFloat_def toString_negative[OF neg] del: toString.simps)
  qed
qed

lemma decimal_value_printed:
  assumes x: "0 < x" and f: "round64 x = Finite x"
  shows "\<exists>v. decimal_value (toString (Finite x)) = Some v \<and> 0 < v \<and> round64 v = Finite x"
proof -
  have e: "literal_ends []" by (simp add: literal_ends_def)
  from scan_printed[OF x f e] obtain v c t where
    *: "toString (Finite x) = c # t" "is_digit c"
    "scan_unsigned (toString (Finite x)) = Some (v, [])" "0 < v" "round64 v = Finite x"
    by auto
  moreover from * have "c \<noteq> CHR ''-''" "c \<noteq> CHR ''+''" by auto
  ultimately show ?thesis
    by (simp add: decimal_value_def del: toString.simps)
qed

subsection \<open>Reading back what JSON.stringify writes\<close>

lemma hex_cases:
  fixes h :: int
  assumes "0 \<le> h" "h < 16"
  shows "h = 0 \<or> h = 1 \<or> h = 2 \<or> h = 3 \<or> h = 4 \<or> h = 5 \<or> h = 6 \<or> h = 7 \<or> h = 8 \<or> h = 9
       \<or> h = 10 \<or> h = 11 \<or> h = 12 \<or> h = 13 \<or> h = 14 \<or> h = 15"
  using assms by presburger


lemma hex_char_not_special:
  "0 \<le> h \<Longrightarrow> h < 16 \<Longrightarrow> hex_char h \<noteq> CHR 0x22 \<and> hex_char h \<noteq> CHR 0x5C"
  using hex_cases[of h] by (auto simp: hex_char_def char_of_eq_iff)

lemma unhex_zero [simp]: "unhex (CHR ''0'') = Some 0"
  by (simp add: unhex_def)






lemma literal_ends_comma [simp]: "literal_ends (CHR '','' # r)"
  by (simp add: literal_ends_def)






subsection \<open>Rounding is idempotent\<close>

lemma ilen_bounds:
  "1 < b \<Longrightarrow> 0 < a \<Longrightarrow> 0 < ilen b a \<and> b ^ nat (ilen b a - 1) \<le> a \<and> a < b ^ nat (ilen b a)"
proof (induction b a rule: ilen.induct)
  case (1 b a)
  have b: "1 < b" and a: "0 < a" by fact+
  have step: "ilen b a = ilen b (a div b) + 1"
    using a b by (simp add: ilen.simps[of b a])
  show ?case
  proof (cases "a div b = 0")
    case True
    then have "ilen b (a div b) = 0" by (simp add: ilen.simps[of b 0])
    moreover have "a < b"
    proof -
      have "a = b * (a div b) + a mod b" by simp
      with True have "a = a mod b" by simp
      moreover have "a mod b < b" using b by simp
      ultimately show ?thesis by simp
    qed
    ultimately show ?thesis using a step by simp
  next
    case False
    then have pos: "0 < a div b"
      using a b by (simp add: pos_imp_zdiv_nonneg_iff order_less_le)
    from "1.IH"[OF _ b pos] a b
    have IH: "0 < ilen b (a div b)" "b ^ nat (ilen b (a div b) - 1) \<le> a div b"
      "a div b < b ^ nat (ilen b (a div b))"
      by auto
    define l where "l = ilen b (a div b)"
    have l: "0 < l" "b ^ nat (l - 1) \<le> a div b" "a div b < b ^ nat l"
      using IH by (simp_all add: l_def)
    have nl: "nat l = Suc (nat (l - 1))" using l(1) by simp
    have "a = b * (a div b) + a mod b" by simp
    moreover have "0 \<le> a mod b" using b by simp
    ultimately have "b * (a div b) \<le> a" by linarith

    moreover have "b ^ nat l = b * b ^ nat (l - 1)" by (subst nl) simp
    moreover have "b * b ^ nat (l - 1) \<le> b * (a div b)" using l(2) b by simp
    ultimately have lower: "b ^ nat l \<le> a" by linarith
    have dm: "b * (a div b) + a mod b = a" by simp
    have mb: "a mod b < b" using b by simp
    have "b * (a div b + 1) = b * (a div b) + b" by (simp add: algebra_simps)
    with dm mb have "a < b * (a div b + 1)" by linarith
    moreover have "b * (a div b + 1) \<le> b * b ^ nat l" using l(3) b by simp
    ultimately have upper: "a < b ^ nat (l + 1)" using l(1) by (simp add: nat_add_distrib)
    show ?thesis using lower upper l(1) by (simp add: step l_def[symmetric])
  qed
qed


lemma ilog_bounds:
  assumes b: "1 < b" and q: "0 < q"
  shows "power_int (of_int b) (ilog b q) \<le> q \<and> q < power_int (of_int b) (ilog b q + 1)"
proof -
  define B :: rat where "B = of_int b"
  have B: "1 < B" "0 < B" "B \<noteq> 0" using b by (simp_all add: B_def)
  obtain n d where nd: "quotient_of q = (n, d)" by (cases "quotient_of q")
  have d: "0 < d" using nd by (rule quotient_of_denom_pos)
  have qe: "q = of_int n / of_int d" using nd by (rule quotient_of_div)
  have n: "0 < n" using q d qe by (simp add: zero_less_divide_iff)
  define ln where "ln = ilen b n"
  define ld where "ld = ilen b d"
  from ilen_bounds[OF b n] have bn: "0 < ln" "b ^ nat (ln - 1) \<le> n" "n < b ^ nat ln"
    by (simp_all add: ln_def)
  from ilen_bounds[OF b d] have bd: "0 < ld" "b ^ nat (ld - 1) \<le> d" "d < b ^ nat ld"
    by (simp_all add: ld_def)
  have pw: "power_int B k = of_int (b ^ nat k)" if "0 \<le> k" for k
    using that by (simp add: power_int_def B_def)
  have n_lo: "power_int B (ln - 1) \<le> of_int n" and n_hi: "of_int n < power_int B ln"
    using bn by (simp_all add: pw)
  have d_lo: "power_int B (ld - 1) \<le> of_int d" and d_hi: "of_int d < power_int B ld"
    using bd by (simp_all add: pw)
  have dpos: "(0::rat) < of_int d" using d by simp
  have pp: "0 < power_int B k" for k using B(2) by (rule zero_less_power_int)
  have upper: "q < power_int B (ln - ld + 1)"
  proof -
    have "q < power_int B ln / of_int d"
      unfolding qe using n_hi dpos by (simp add: divide_strict_right_mono)
    also have "\<dots> \<le> power_int B ln / power_int B (ld - 1)"
      using d_lo dpos pp[of ln] pp[of "ld - 1"]
      by (intro divide_left_mono) (simp_all add: zero_less_mult_iff less_imp_le)
    also have "\<dots> = power_int B (ln - (ld - 1))"
      using B by (simp add: power_int_diff)
    finally show ?thesis by (simp add: algebra_simps)
  qed
  have lower: "power_int B (ln - ld - 1) < q"
  proof -
    have "power_int B (ln - ld - 1) = power_int B ((ln - 1) - ld)" by (simp add: algebra_simps)
    also have "\<dots> = power_int B (ln - 1) / power_int B ld"
      using B by (simp add: power_int_diff)
    also have "\<dots> < power_int B (ln - 1) / of_int d"
      using d_hi dpos pp[of "ln - 1"] pp[of ld]
      by (intro divide_strict_left_mono) (simp_all add: zero_less_mult_iff)
    also have "\<dots> \<le> q"
      unfolding qe using n_lo dpos by (simp add: divide_right_mono)
    finally show ?thesis .
  qed
  show ?thesis
  proof (cases "power_int B (ln - ld) \<le> q")
    case True
    then have "ilog b q = ln - ld"
      by (simp add: ilog_def nd ln_def ld_def B_def)
    with True upper show ?thesis by (simp add: B_def)
  next
    case False
    then have "ilog b q = ln - ld - 1"
      by (simp add: ilog_def nd ln_def ld_def B_def)
    with False lower show ?thesis by (simp add: B_def)
  qed
qed

lemma ilog_unique:
  assumes b: "1 < b" and lo: "power_int (of_int b) j \<le> q" and hi: "q < power_int (of_int b) (j + 1)"
  shows "ilog b q = j"
proof -
  define B :: rat where "B = of_int b"
  have B: "1 < B" using b by (simp add: B_def)
  have "0 < power_int B j" using B by (simp add: zero_less_power_int)
  then have q: "0 < q" using lo by (simp add: B_def)
  define i where "i = ilog b q"
  from ilog_bounds[OF b q] have i: "power_int B i \<le> q" "q < power_int B (i + 1)"
    by (simp_all add: i_def B_def)
  have "\<not> i < j"
  proof
    assume "i < j"
    then have "power_int B (i + 1) \<le> power_int B j"
      using B by (intro power_int_increasing) simp_all
    with i(2) lo show False by (simp add: B_def)
  qed
  moreover have "\<not> j < i"
  proof
    assume "j < i"
    then have "power_int B (j + 1) \<le> power_int B i"
      using B by (intro power_int_increasing) simp_all
    with i(1) hi show False by (simp add: B_def)
  qed
  ultimately show ?thesis by (simp add: i_def)
qed

lemma round_half_even_of_int [simp]: "round_half_even (of_int m) = m"
  by (simp add: round_half_even_def)

lemma round_half_even_lower: "of_int a \<le> x \<Longrightarrow> a \<le> round_half_even x"
proof -
  assume "of_int a \<le> x"
  then have "a \<le> \<lfloor>x\<rfloor>" by (simp add: le_floor_iff)
  then show ?thesis by (simp add: round_half_even_def Let_def)
qed

lemma round_half_even_upper: "x \<le> of_int a \<Longrightarrow> round_half_even x \<le> a"
proof -
  assume h: "x \<le> of_int a"
  show ?thesis
  proof (cases "x = of_int a")
    case True
    then show ?thesis by simp
  next
    case False
    with h have "x < of_int a" by simp
    then have "\<lfloor>x\<rfloor> < a" by (simp add: floor_less_iff)
    then show ?thesis by (simp add: round_half_even_def Let_def)
  qed
qed

lemma round64_pos_refl:
  assumes "max (ilog 2 r - 52) (- 1074) = e"
    and "r * power_int 2 (- e) = of_int m"
    and "\<not> 971 < e" and "\<not> (e = 971 \<and> m = 9007199254740992)"
    and "r = of_int m * power_int 2 e"
  shows "round64_pos r = Some r"
  using assms(3,4,5) unfolding round64_pos_def Let_def assms(1) assms(2)
  by (simp only: round_half_even_of_int if_False simp_thms)

lemma round64_pos_idem:
  assumes a: "0 < a" and r: "round64_pos a = Some r" and rpos: "0 < r"
  shows "round64_pos r = Some r"
proof -
  define P :: "int \<Rightarrow> rat" where "P k = power_int 2 k" for k
  have P_add: "P i * P j = P (i + j)" for i j by (simp add: P_def power_int_add)
  have P_pos: "0 < P k" for k by (simp add: P_def zero_less_power_int)
  have P_mono: "P i \<le> P j" if "i \<le> j" for i j
    using that by (simp add: P_def power_int_increasing)
  have P_0: "P 0 = 1" by (simp add: P_def)
  have P_52: "P 52 = of_int 4503599627370496" by (simp add: P_def)
  have P_53: "P 53 = of_int 9007199254740992" by (simp add: P_def)
  define L where "L = ilog 2 a"
  define e where "e = max (L - 52) (- 1074)"
  define m where "m = round_half_even (a * P (- e))"
  have rv: "r = of_int m * P e" and nov: "\<not> 971 < e" "\<not> (e = 971 \<and> m = 9007199254740992)"
    using r unfolding round64_pos_def Let_def L_def[symmetric] e_def[symmetric] P_def[symmetric] m_def[symmetric]
    by (auto split: if_splits)
  have La: "P L \<le> a" "a < P (L + 1)"
    using ilog_bounds[of 2 a] a by (simp_all add: L_def P_def)
  have mpos: "0 < m"
  proof (rule ccontr)
    assume "\<not> 0 < m"
    then have "of_int m * P e \<le> 0" using P_pos[of e] by (simp add: mult_le_0_iff)
    with rpos rv show False by simp
  qed
  have il: "ilog 2 r = j" if "P j \<le> r" "r < P (j + 1)" for j
    using ilog_unique[of 2 j r] that by (simp add: P_def)
  have fin: "round64_pos r = Some r"
    if "max (ilog 2 r - 52) (- 1074) = e'" "r * P (- e') = of_int m'"
      "\<not> 971 < e'" "\<not> (e' = 971 \<and> m' = 9007199254740992)" "r = of_int m' * P e'"
    for e' m'
    using round64_pos_refl[of r e' m'] that by (simp add: P_def)
  have cancel: "of_int k * P i * P (- i) = of_int k" for k i
    using P_add[of i "- i"] P_0 by (simp add: mult.assoc)
  show ?thesis
  proof (cases "- 1074 \<le> L - 52")
    case True
    then have e: "e = L - 52" by (simp add: e_def)
    have t_lo: "P 52 \<le> a * P (- e)"
    proof -
      have "P 52 = P L * P (- e)" by (simp add: P_add e)
      also have "\<dots> \<le> a * P (- e)" using La(1) P_pos[of "- e"] by simp
      finally show ?thesis .
    qed
    have t_hi: "a * P (- e) \<le> P 53"
    proof -
      have "a * P (- e) \<le> P (L + 1) * P (- e)" using La(2) P_pos[of "- e"] by simp
      also have "\<dots> = P 53" by (simp add: P_add e)
      finally show ?thesis .
    qed
    have m_lo: "4503599627370496 \<le> m"
      unfolding m_def using t_lo by (intro round_half_even_lower) (simp add: P_52)
    have m_hi: "m \<le> 9007199254740992"
      unfolding m_def using t_hi by (intro round_half_even_upper) (simp add: P_53)
    show ?thesis
    proof (cases "m = 9007199254740992")
      case False
      with m_hi have "m < 9007199254740992" by simp
      then have "(of_int m :: rat) < of_int 9007199254740992" by (simp only: of_int_less_iff)
      then have mP: "of_int m < P 53" by (simp only: P_53)
      have "P 52 \<le> of_int m" unfolding P_52 using m_lo by (simp only: of_int_le_iff)
      then have "P 52 * P e \<le> of_int m * P e" using P_pos[of e] by simp
      then have lo: "P (e + 52) \<le> r" by (simp add: P_add rv add.commute)
      have "of_int m * P e < P 53 * P e" using mP P_pos[of e] by simp
      then have hi: "r < P (e + 52 + 1)" by (simp add: P_add rv add.commute)
      have "ilog 2 r = e + 52" using lo hi by (rule il)
      then have "max (ilog 2 r - 52) (- 1074) = e" using True e by simp
      moreover have "r * P (- e) = of_int m" by (simp add: rv cancel)
      ultimately show ?thesis using nov rv by (rule fin)
    next
      case m53: True
      have "r = P 53 * P e" by (simp add: rv m53 P_53)
      also have "\<dots> = P (53 + e)" by (rule P_add)
      finally have rP: "r = P (e + 53)" by (simp add: add.commute)
      have "P (e + 53) \<le> r" "r < P (e + 53 + 1)"
      proof -
        show "P (e + 53) \<le> r" by (simp add: rP)
        have "P (e + 53) * 1 < P (e + 53) * P 1"
          using P_pos[of "e + 53"] by (simp add: P_def)
        then show "r < P (e + 53 + 1)" by (simp add: rP P_add)
      qed
      then have "ilog 2 r = e + 53" by (rule il)
      then have 1: "max (ilog 2 r - 52) (- 1074) = e + 1" using True e by simp
      have "r * P (- (e + 1)) = P (e + 53) * P (- (e + 1))" by (simp only: rP)
      also have "\<dots> = P 52" by (simp add: P_add)
      finally have 2: "r * P (- (e + 1)) = of_int 4503599627370496" by (simp add: P_52)
      have 3: "\<not> 971 < e + 1" using nov m53 by simp
      have 4: "\<not> (e + 1 = 971 \<and> (4503599627370496::int) = 9007199254740992)" by simp
      have "P 52 * P (e + 1) = P (e + 53)" using P_add[of 52 "e + 1"] by (simp add: algebra_simps)
      with rP have 5: "r = of_int 4503599627370496 * P (e + 1)" by (simp add: P_52)
      from 1 2 3 4 5 show ?thesis by (rule fin)
    qed
  next
    case False
    then have e: "e = - 1074" by (simp add: e_def)
    have "a * P (- e) \<le> P (L + 1) * P (- e)" using La(2) P_pos[of "- e"] by simp
    also have "\<dots> = P (L + 1 - e)" by (simp add: P_add)
    also have "\<dots> \<le> P 52" using False by (intro P_mono) (simp add: e)
    finally have "a * P (- e) \<le> of_int 4503599627370496" by (simp add: P_52)
    then have m_hi: "m \<le> 4503599627370496" unfolding m_def by (rule round_half_even_upper)
    define Lm where "Lm = ilog 2 (of_int m)"
    have Lm: "P Lm \<le> of_int m" "of_int m < P (Lm + 1)"
      using ilog_bounds[of 2 "of_int m"] mpos by (simp_all add: Lm_def P_def)
    have Lm52: "Lm \<le> 52"
    proof (rule ccontr)
      assume "\<not> Lm \<le> 52"
      then have "P 53 \<le> P Lm" by (intro P_mono) simp
      also have "\<dots> \<le> of_int m" by (rule Lm(1))
      also have "\<dots> \<le> of_int 4503599627370496" using m_hi by (simp only: of_int_le_iff)
      finally show False by (simp add: P_53)
    qed
    have "P Lm * P e \<le> of_int m * P e" using Lm(1) P_pos[of e] by simp
    then have lo: "P (Lm + e) \<le> r" by (simp add: P_add rv)
    have "of_int m * P e < P (Lm + 1) * P e" using Lm(2) P_pos[of e] by simp
    then have hi: "r < P (Lm + e + 1)" by (simp add: P_add rv algebra_simps)
    have "ilog 2 r = Lm + e" using lo hi by (rule il)
    then have "max (ilog 2 r - 52) (- 1074) = e" using Lm52 e by simp
    moreover have "r * P (- e) = of_int m" by (simp add: rv cancel)
    ultimately show ?thesis using nov rv by (rule fin)
  qed
qed

lemma round64_pos_nonneg:
  assumes "0 < a" and "round64_pos a = Some r"
  shows "0 \<le> r"
proof -
  define e where "e = max (ilog 2 a - 52) (- 1074)"
  define m where "m = round_half_even (a * power_int 2 (- e))"
  have r: "r = of_int m * power_int 2 e"
    using assms(2) unfolding round64_pos_def Let_def e_def[symmetric] m_def[symmetric]
    by (auto split: if_splits)
  have "(of_int 0 :: rat) \<le> a * power_int 2 (- e)"
    using assms(1) by (simp add: zero_le_power_int)
  then have "0 \<le> m" unfolding m_def by (rule round_half_even_lower)
  then show ?thesis by (simp add: r zero_le_power_int)
qed

text \<open>Rounding a rational gives a Number that rounding leaves as it is.\<close>

lemma round64_idem:
  assumes "round64 q = Finite r"
  shows "round64 r = Finite r"
proof -
  have pos: "round64 r' = Finite r'" if "0 < a" "round64_pos a = Some r'" for a r'
  proof (cases "r' = 0")
    case True
    then show ?thesis by simp
  next
    case False
    with round64_pos_nonneg[OF that] have "0 < r'" by simp
    with round64_pos_idem[OF that this] show ?thesis by (simp add: round64_def)
  qed
  show ?thesis
  proof (cases "q = 0")
    case True
    with assms show ?thesis by simp
  next
    case False
    show ?thesis
    proof (cases "0 < q")
      case True
      with False assms have "round64_pos q = Some r"
        by (auto simp: round64_def split: option.splits)
      with True show ?thesis by (rule pos)
    next
      case neg: False
      with False assms obtain r' where r': "round64_pos (- q) = Some r'" "r = - r'"
        by (auto simp: round64_def split: option.splits)
      from neg False have "0 < - q" by simp
      from pos[OF this r'(1)] have "round64 r' = Finite r'" .
      from round64_minus[OF this] r'(2) show ?thesis by simp
    qed
  qed
qed

text \<open>
  Within the range of the normal binary64 numbers rounding neither overflows nor reaches
  zero: the result lies between half and twice the number rounded.
\<close>

lemma round64_pos_normal:
  assumes lo: "power_int 2 (- 1022) \<le> a" and hi: "a < power_int 2 1023"
  shows "\<exists>r. round64_pos a = Some r \<and> a / 2 < r \<and> r \<le> 2 * a"
proof -
  define P :: "int \<Rightarrow> rat" where "P k = power_int 2 k" for k
  have P_add: "P i * P j = P (i + j)" for i j by (simp add: P_def power_int_add)
  have P_pos: "0 < P k" for k by (simp add: P_def zero_less_power_int)
  have P_mono: "P i \<le> P j" if "i \<le> j" for i j
    using that by (simp add: P_def power_int_increasing)
  have P_1: "P 1 = 2" by (simp add: P_def)
  have P_52: "P 52 = of_int 4503599627370496" by (simp add: P_def)
  have P_53: "P 53 = of_int 9007199254740992" by (simp add: P_def)
  have a: "0 < a" using lo P_pos[of "- 1022"] by (simp add: P_def)
  define L where "L = ilog 2 a"
  define e where "e = max (L - 52) (- 1074)"
  define m where "m = round_half_even (a * P (- e))"
  have La: "P L \<le> a" "a < P (L + 1)"
    using ilog_bounds[of 2 a] a by (simp_all add: L_def P_def)
  have L_lo: "- 1022 \<le> L"
  proof (rule ccontr)
    assume "\<not> - 1022 \<le> L"
    then have "P (L + 1) \<le> P (- 1022)" by (intro P_mono) simp
    with La(2) lo show False by (simp add: P_def)
  qed
  have L_hi: "L \<le> 1022"
  proof (rule ccontr)
    assume "\<not> L \<le> 1022"
    then have "P 1023 \<le> P L" by (intro P_mono) simp
    with La(1) hi show False by (simp add: P_def)
  qed
  have e: "e = L - 52" using L_lo by (simp add: e_def)
  have t_lo: "P 52 \<le> a * P (- e)"
  proof -
    have "P 52 = P L * P (- e)" by (simp add: P_add e)
    also have "\<dots> \<le> a * P (- e)" using La(1) P_pos[of "- e"] by simp
    finally show ?thesis .
  qed
  have t_hi: "a * P (- e) \<le> P 53"
  proof -
    have "a * P (- e) \<le> P (L + 1) * P (- e)" using La(2) P_pos[of "- e"] by simp
    also have "\<dots> = P 53" by (simp add: P_add e)
    finally show ?thesis .
  qed
  have m_lo: "4503599627370496 \<le> m"
    unfolding m_def using t_lo by (intro round_half_even_lower) (simp add: P_52)
  have m_hi: "m \<le> 9007199254740992"
    unfolding m_def using t_hi by (intro round_half_even_upper) (simp add: P_53)
  have nov: "\<not> 971 < e" "e \<noteq> 971" using L_hi e by simp_all
  have r: "round64_pos a = Some (of_int m * P e)"
    unfolding round64_pos_def Let_def L_def[symmetric] e_def[symmetric] P_def[symmetric]
      m_def[symmetric]
    using nov by simp
  have "P 52 \<le> of_int m" unfolding P_52 using m_lo by (simp only: of_int_le_iff)
  then have "P 52 * P e \<le> of_int m * P e" using P_pos[of e] by simp
  then have "P L \<le> of_int m * P e" by (simp add: P_add e)
  moreover have "a < 2 * P L" using La(2) P_add[of 1 L] P_1 by (simp add: add.commute)
  ultimately have 1: "a / 2 < of_int m * P e" by simp
  have "of_int m \<le> P 53" unfolding P_53 using m_hi by (simp only: of_int_le_iff)
  then have "of_int m * P e \<le> P 53 * P e" using P_pos[of e] by simp
  moreover have "P 53 * P e = P (L + 1)" using P_add[of 53 e] by (simp add: e add.commute)
  ultimately have "of_int m * P e \<le> P (L + 1)" by simp
  moreover have "P (L + 1) \<le> 2 * a" using La(1) P_add[of 1 L] P_1 by (simp add: add.commute)
  ultimately have 2: "of_int m * P e \<le> 2 * a" by simp
  from r 1 2 show ?thesis by simp
qed

lemma round64_normal:
  assumes "power_int 2 (- 1022) \<le> a" and "a < power_int 2 1023"
  shows "\<exists>r. round64 a = Finite r \<and> a / 2 < r \<and> r \<le> 2 * a"
proof -
  have "(0::rat) < power_int 2 (- 1022)" by (simp add: zero_less_power_int)
  with assms(1) have "0 < a" by simp
  with round64_pos_normal[OF assms] show ?thesis by (auto simp: round64_def)
qed

section \<open>Properties of the page\<close>

subsection \<open>What submitOrder posts\<close>

lemma posted_orders_Nil [simp]: "posted_orders [] = []"
  by (simp add: posted_orders_def List.map_filter_def)

lemma posted_orders_Cons [simp]:
  "posted_orders (e # es) =
     (case order_of e of None \<Rightarrow> posted_orders es | Some ord \<Rightarrow> ord # posted_orders es)"
  by (simp add: posted_orders_def List.map_filter_def split: option.splits)

lemma posted_orders_append [simp]:
  "posted_orders (es @ fs) = posted_orders es @ posted_orders fs"
  by (simp add: posted_orders_def List.map_filter_def)

lemma send_order_shape:
  "\<exists>rest. send_order env ord = Http (getRestClient env) ''order'' ''POST'' (Order_body ord) # rest
      \<and> posted_orders rest = [] \<and> filter (posts_to ''secret'') rest = []"
  by (cases "request env (getRestClient env) ''order'' ''POST'' (Order_body ord)")
     (simp_all add: send_order_def postOrder_def Let_def)

lemma posted_send_order [simp]: "posted_orders (send_order env ord) = [ord]"
  using send_order_shape[of env ord] by auto

lemma send_order_no_secret [simp]: "filter (posts_to ''secret'') (send_order env ord) = []"
  using send_order_shape[of env ord] by auto

lemma submitOrder_posted:
  assumes "submitOrder env st = Some effects"
  shows "posted_orders effects = [] \<or>
         (\<exists>sg. posted_orders effects = [\<lparr>order_data = orderData env st, signature = sg\<rparr>])"
  using assms
  by (auto simp: submitOrder_def Let_def split: option.splits if_splits)

lemma submitOrder_no_secret:
  assumes "submitOrder env st = Some effects"
  shows "filter (posts_to ''secret'') effects = []"
  using assms
  by (auto simp: submitOrder_def Let_def split: option.splits if_splits)

lemma orderData_chains:
  "src_chain (orderData env st) \<noteq> dst_chain (orderData env st)"
  "{src_chain (orderData env st), dst_chain (orderData env st)} = {Finite 1, Finite 2}"
  by (auto simp: orderData_def)

text \<open>The page evaluated at the example inputs.\<close>

lemma submit_xlm_state: "submitOrder example_env xlm_state = Some [posting xlm_order]"
  by code_simp

lemma submit_eth_state: "submitOrder example_env eth_state = Some [posting eth_order]"
  by code_simp

lemma submit_initial_state:
  "submitOrder example_env initial_state = Some [posting unsigned_order]"
  by code_simp

lemma order_of_posting [simp]: "order_of (posting ord) = Some ord"
  by (simp add: posting_def)

subsection \<open>Chain identifiers\<close>

text \<open>
  C3.  Whatever pair is selected, every order that \<^verbatim>\<open>submitOrder\<close> posts has
  \<open>src_chain\<close> and \<open>dst_chain\<close> different from each other, one of them \<open>1\<close> and the
  other \<open>2\<close>.
\<close>

theorem chains_distinct:
  assumes "submitOrder env st = Some effects" and "ord \<in> set (posted_orders effects)"
  shows "src_chain (order_data ord) \<noteq> dst_chain (order_data ord) \<and>
         {src_chain (order_data ord), dst_chain (order_data ord)} = {Finite 1, Finite 2}"
proof -
  from submitOrder_posted[OF assms(1)] assms(2)
  have "order_data ord = orderData env st" by auto
  then show ?thesis using orderData_chains[of env st] by simp
qed

theorem chains_distinct_witness:
  "submitOrder example_env xlm_state = Some [posting xlm_order]
   \<and> xlm_order \<in> set (posted_orders [posting xlm_order])
   \<and> src_chain (order_data xlm_order) \<noteq> dst_chain (order_data xlm_order)
   \<and> {src_chain (order_data xlm_order), dst_chain (order_data xlm_order)} = {Finite 1, Finite 2}"
proof -
  have a: "submitOrder example_env xlm_state = Some [posting xlm_order]"
    by (rule submit_xlm_state)
  have b: "xlm_order \<in> set (posted_orders [posting xlm_order])"
    by (simp add: posting_def)
  from chains_distinct[OF a b] a b show ?thesis by simp
qed

subsection \<open>The Relayer client\<close>

text \<open>
  C5.  \<^verbatim>\<open>postOrder\<close> sends one request: a POST to the \<^verbatim>\<open>order\<close> endpoint whose body is
  the order it was given, unchanged; it returns the \<^verbatim>\<open>data\<close> of the response, which
  the caller reads as a boolean.
\<close>

theorem postOrder_sends_order:
  "fst (postOrder env ord) = [Http (getRestClient env) ''order'' ''POST'' (Order_body ord)]
   \<and> posted_orders (fst (postOrder env ord)) = [ord]
   \<and> snd (postOrder env ord)
       = map_option data (request env (getRestClient env) ''order'' ''POST'' (Order_body ord))"
  by (simp add: postOrder_def Let_def)

text \<open>
  C6.  \<^verbatim>\<open>postSecret\<close> sends one request: a POST to the \<^verbatim>\<open>secret\<close> endpoint whose body
  is the object with the single property \<^verbatim>\<open>secret\<close> holding the given string; it returns
  the \<^verbatim>\<open>data\<close> of the response.
\<close>

theorem postSecret_sends_secret:
  "fst (postSecret env s)
     = [Http (getRestClient env) ''secret'' ''POST'' (Secret_body \<lparr>secret = s\<rparr>)]
   \<and> snd (postSecret env s)
       = map_option data
           (request env (getRestClient env) ''secret'' ''POST'' (Secret_body \<lparr>secret = s\<rparr>))"
  by (simp add: postSecret_def Let_def)

subsection \<open>Orders without a pair\<close>

text \<open>
  C9.  When the selected pair is neither \<^verbatim>\<open>ETHXLM\<close> nor \<^verbatim>\<open>XLMETH\<close>, \<^verbatim>\<open>submitOrder\<close>
  does not stop: it posts an order whose signature has the empty string both as
  \<open>signed_message\<close> and as \<open>signer_address\<close>.
\<close>

theorem other_pair_posts_unsigned:
  assumes "tokensPair st \<noteq> ''ETHXLM''" and "tokensPair st \<noteq> ''XLMETH''"
  shows "\<exists>effects. submitOrder env st = Some effects
           \<and> posted_orders effects
               = [\<lparr>order_data = orderData env st,
                   signature = \<lparr>signed_message = [], signer_address = []\<rparr>\<rparr>]
           \<and> hd effects
               = Http (getRestClient env) ''order'' ''POST''
                   (Order_body \<lparr>order_data = orderData env st,
                      signature = \<lparr>signed_message = [], signer_address = []\<rparr>\<rparr>)"
  using assms send_order_shape[of env "\<lparr>order_data = orderData env st,
                      signature = \<lparr>signed_message = [], signer_address = []\<rparr>\<rparr>"]
  by (auto simp: submitOrder_def Let_def)

theorem other_pair_posts_unsigned_witness:
  "tokensPair initial_state \<noteq> ''ETHXLM'' \<and> tokensPair initial_state \<noteq> ''XLMETH''
   \<and> (\<exists>effects. submitOrder example_env initial_state = Some effects
           \<and> posted_orders effects
               = [\<lparr>order_data = orderData example_env initial_state,
                   signature = \<lparr>signed_message = [], signer_address = []\<rparr>\<rparr>]
           \<and> hd effects
               = Http (getRestClient example_env) ''order'' ''POST''
                   (Order_body \<lparr>order_data = orderData example_env initial_state,
                      signature = \<lparr>signed_message = [], signer_address = []\<rparr>\<rparr>))"
proof -
  have a: "tokensPair initial_state \<noteq> ''ETHXLM''" by (simp add: initial_state_def)
  have b: "tokensPair initial_state \<noteq> ''XLMETH''" by (simp add: initial_state_def)
  from other_pair_posts_unsigned[OF a b, of example_env] a b show ?thesis by simp
qed

subsection \<open>The Max buttons\<close>

text \<open>
  C10.  \<^verbatim>\<open>handleUseMax\<close> changes no field of the state but \<open>fromAmount\<close>.  It sets
  \<open>fromAmount\<close> to the string of \<open>xlmBalance\<close> when the pair is \<^verbatim>\<open>XLMETH\<close> and that
  balance is not null, to the string of \<open>ethBalance\<close> when the pair is \<^verbatim>\<open>ETHXLM\<close> and
  that balance is not null, and otherwise leaves the whole state as it is.
\<close>

theorem handleUseMax_frame:
  "handleUseMax st =
     st\<lparr>fromAmount :=
          (if tokensPair st = ''XLMETH'' \<and> xlmBalance st \<noteq> None
           then toString (the (xlmBalance st))
           else if tokensPair st = ''ETHXLM'' \<and> ethBalance st \<noteq> None
           then toString (the (ethBalance st))
           else fromAmount st)\<rparr>"
  by (auto simp: handleUseMax_def)

theorem handleUseMax_frame_witness:
  "handleUseMax xlm_state = xlm_state\<lparr>fromAmount := ''250''\<rparr>
   \<and> handleUseMax eth_state = eth_state"
proof -
  have "toString (Finite 250) = ''250''" by code_simp
  moreover have "tokensPair xlm_state = ''XLMETH''" "xlmBalance xlm_state = Some (Finite 250)"
     "tokensPair eth_state = ''ETHXLM''" "ethBalance eth_state = None"
    by (simp_all add: xlm_state_def eth_state_def initial_state_def)
  ultimately show ?thesis
    using handleUseMax_frame[of xlm_state] handleUseMax_frame[of eth_state]
    by (simp del: toString.simps)
qed

subsection \<open>Secrets\<close>

lemma step_no_secret:
  "filter (posts_to ''secret'') (snd (step e w)) = filter (posts_to ''secret'') (snd w)"
proof (cases w)
  case (Pair st tr)
  show ?thesis
    unfolding Pair
    by (cases e) (auto simp: submitOrder_no_secret Let_def split: option.splits list.splits)
qed

text \<open>
  C7.  No sequence of events makes the page post to the \<^verbatim>\<open>secret\<close> endpoint: the
  requests to that endpoint in the trace after a run are those that were there before.
\<close>

theorem page_never_posts_secret:
  "filter (posts_to ''secret'') (snd (run events w)) = filter (posts_to ''secret'') (snd w)"
  unfolding run_def
  by (induction events arbitrary: w) (simp_all add: step_no_secret)

theorem page_never_posts_secret_witness:
  "snd (run [Click_submit example_env] (initial_state, [])) = [posting unsigned_order]
   \<and> filter (posts_to ''secret'') (snd (run [Click_submit example_env] (initial_state, []))) = []"
proof -
  have "\<not> (\<not> metamaskConnected initial_state \<and> \<not> freighterConnected initial_state
            \<and> fromAmount initial_state \<noteq> [])"
    by (simp add: initial_state_def)
  then have "snd (run [Click_submit example_env] (initial_state, [])) = [posting unsigned_order]"
    by (simp add: run_def submit_initial_state)
  moreover have "filter (posts_to ''secret'') (snd (run [Click_submit example_env] (initial_state, []))) = []"
    using page_never_posts_secret[of "[Click_submit example_env]" "(initial_state, [])"] by simp
  ultimately show ?thesis by simp
qed

subsection \<open>Signatures\<close>

lemma eth_state_reachable:
  "run [Select_pair ''ETHXLM'', Click_connect_freighter (Some ''GABC'') (Some (Some ''250'')),
        Change_amount ''100''] (initial_state, []) = (eth_state, [])"
  by code_simp

text \<open>
  C1, as stated, fails.  With the pair \<^verbatim>\<open>ETHXLM\<close> selected and no account recorded in
  \<open>evmAddress\<close>, the order is signed by the MetaMask account \<^verbatim>\<open>0xA1\<close> and posted with
  an empty \<open>signer_address\<close>; with no pair selected the order is posted with an empty
  signature.
\<close>

theorem signature_counterexample:
  "submitOrder example_env eth_state = Some [posting eth_order]
   \<and> order_of (posting eth_order) = Some eth_order
   \<and> \<not> signed_by_source_wallet example_env eth_order
   \<and> submitOrder example_env initial_state = Some [posting unsigned_order]
   \<and> order_of (posting unsigned_order) = Some unsigned_order
   \<and> \<not> signed_by_source_wallet example_env unsigned_order"
proof -
  have "\<not> signed_by_source_wallet example_env eth_order"
    by code_simp
  moreover have "\<not> signed_by_source_wallet example_env unsigned_order"
    by code_simp
  ultimately show ?thesis
    by (simp add: submit_eth_state submit_initial_state)
qed

text \<open>
  C1, amended.  Every order that \<^verbatim>\<open>submitOrder\<close> posts carries the order data built from
  the state.  With the pair \<^verbatim>\<open>XLMETH\<close> it is signed as the specification says: the
  Stellar kit signed the JSON text of the order data, and \<open>signer_address\<close> is the
  address the kit reports when it reports a non-empty one, and the recorded
  \<open>stellarAddress\<close> otherwise; it is never empty.  With the pair \<^verbatim>\<open>ETHXLM\<close> the
  MetaMask signer signed the JSON text of the order data, and \<open>signer_address\<close> is the
  recorded \<open>evmAddress\<close>, or the empty string when none is recorded.  With any other
  pair the signature is the initial one, of two empty strings; this last case is that of
  the current revision of the page, the earlier one declaring no initial signature.
\<close>

theorem signature_as_built:
  assumes "submitOrder env st = Some effects" and "ord \<in> set (posted_orders effects)"
  shows "order_data ord = orderData env st
    \<and> (if tokensPair st = ''XLMETH'' then
          src_chain (order_data ord) = Finite 1
          \<and> (\<exists>r. kit_signMessage env (stringify_OrderData (order_data ord)) = Some r
                \<and> signed_message (signature ord) = signedMessage r
                \<and> signer_address (signature ord)
                    = (if truthy_string (signerAddress r) then the (signerAddress r)
                       else or_empty (stellarAddress st)))
          \<and> signer_address (signature ord) \<noteq> []
          \<and> signed_by_source_wallet env ord
        else if tokensPair st = ''ETHXLM'' then
          src_chain (order_data ord) = Finite 2
          \<and> (\<exists>signer. ethereum env = Some signer
                \<and> signMessage signer (stringify_OrderData (order_data ord))
                    = Some (signed_message (signature ord)))
          \<and> signer_address (signature ord) = or_empty (evmAddress st)
        else signature ord = \<lparr>signed_message = [], signer_address = []\<rparr>)"
proof -
  have src: "src_chain (orderData env st) = (if tokensPair st = ''XLMETH'' then Finite 1 else Finite 2)"
    by (simp add: orderData_def)
  show ?thesis
  proof (cases "tokensPair st = ''XLMETH''")
    case True
    with assms show ?thesis
      by (auto simp: submitOrder_def Let_def src signed_by_source_wallet_def truthy_string_def
            or_empty_def split: option.splits if_splits)
  next
    case False
    with assms show ?thesis
      by (auto simp: submitOrder_def Let_def src split: option.splits if_splits)
  qed
qed

theorem signature_as_built_witness:
  "submitOrder example_env xlm_state = Some [posting xlm_order]
   \<and> xlm_order \<in> set (posted_orders [posting xlm_order])
   \<and> order_data xlm_order = orderData example_env xlm_state
   \<and> src_chain (order_data xlm_order) = Finite 1
   \<and> signed_by_source_wallet example_env xlm_order
   \<and> signer_address (signature xlm_order) = or_empty (stellarAddress xlm_state)
   \<and> submitOrder example_env eth_state = Some [posting eth_order]
   \<and> eth_order \<in> set (posted_orders [posting eth_order])
   \<and> signer_address (signature eth_order) = or_empty (evmAddress eth_state)
   \<and> submitOrder example_env initial_state = Some [posting unsigned_order]
   \<and> unsigned_order \<in> set (posted_orders [posting unsigned_order])
   \<and> signature unsigned_order = \<lparr>signed_message = [], signer_address = []\<rparr>"
proof -
  have x: "tokensPair xlm_state = ''XLMETH''"
    and e: "tokensPair eth_state = ''ETHXLM''"
    and i: "tokensPair initial_state = []"
    by (simp_all add: xlm_state_def eth_state_def initial_state_def)
  have m: "xlm_order \<in> set (posted_orders [posting xlm_order])"
     "eth_order \<in> set (posted_orders [posting eth_order])"
     "unsigned_order \<in> set (posted_orders [posting unsigned_order])"
    by simp_all
  from signature_as_built[OF submit_xlm_state m(1)] x
  have 1: "order_data xlm_order = orderData example_env xlm_state
     \<and> src_chain (order_data xlm_order) = Finite 1
     \<and> signed_by_source_wallet example_env xlm_order"
    by auto
  have k: "signerAddress r = None" if "kit_signMessage example_env msg = Some r" for msg r
    using that by (auto simp: example_env_def)
  from signature_as_built[OF submit_xlm_state m(1)] x
  obtain r where "kit_signMessage example_env (stringify_OrderData (order_data xlm_order)) = Some r"
    "signer_address (signature xlm_order)
       = (if truthy_string (signerAddress r) then the (signerAddress r)
          else or_empty (stellarAddress xlm_state))"
    by auto
  with k[of _ r] have 4: "signer_address (signature xlm_order) = or_empty (stellarAddress xlm_state)"
    by (simp add: truthy_string_def)
  from signature_as_built[OF submit_eth_state m(2)] e
  have 2: "signer_address (signature eth_order) = or_empty (evmAddress eth_state)"
    by simp
  from signature_as_built[OF submit_initial_state m(3)] i
  have 3: "signature unsigned_order = \<lparr>signed_message = [], signer_address = []\<rparr>"
    by simp
  from 1 2 3 4 m submit_xlm_state submit_eth_state submit_initial_state show ?thesis
    by blast
qed

subsection \<open>Amounts\<close>

lemma literal_095: "round64 (95 / 100) = Finite (4278419646001971 / 4503599627370496)"
  by code_simp

text \<open>
  Of two shortest decimals that are equally close to a Number, its text has the one whose
  last digit is even.
\<close>

lemma toString_nearest_even:
  "toString (times_number (parseFloat ''2000000000000001'') (round64 (95 / 100)))
     = ''1900000000000000.8''"
  "toString (Finite (524291 / 65536)) = ''8.000045776367188''"
  by code_simp+

lemma handleUseMax_nearest_even:
  "handleUseMax (xlm_state\<lparr>xlmBalance := Some (Finite (524291 / 65536))\<rparr>)
     = xlm_state\<lparr>xlmBalance := Some (Finite (524291 / 65536)), fromAmount := ''8.000045776367188''\<rparr>"
  using toString_nearest_even(2) by (simp add: handleUseMax_def xlm_state_def del: toString.simps)

lemma times_number_finite:
  assumes "times_number x y = Finite r"
  shows "round64 r = Finite r"
proof -
  from assms obtain a b where "x = Finite a" "y = Finite b" "round64 (a * b) = Finite r"
    by (cases x; cases y) (auto split: if_splits)
  then show ?thesis using round64_idem by blast
qed

lemma parseFloat_Infinity: "parseFloat ''Infinity'' = PosInf" "parseFloat ''-Infinity'' = NegInf"
  "parseFloat ''NaN'' = NaN"
  by code_simp+

text \<open>Reading back the text of a product gives the product.\<close>

lemma parseFloat_toString_times:
  "parseFloat (toString (times_number x y)) = times_number x y"
proof (cases "times_number x y")
  case (Finite r)
  with times_number_finite[OF this] parseFloat_printed[of r] show ?thesis by simp
qed (simp_all add: parseFloat_Infinity)

lemma scan_unsigned_start:
  assumes "scan_unsigned u = Some p"
  shows "u \<noteq> [] \<and> (is_digit (hd u) \<or> hd u = CHR ''.'')"
proof (cases "takeWhile is_digit u = []")
  case False
  then show ?thesis by (cases u) (auto split: if_splits)
next
  case True
  then have "dropWhile is_digit u = u" by (cases u) (auto split: if_splits)
  with True assms show ?thesis
    by (auto simp: scan_unsigned_def Let_def split: if_splits)
qed

lemma parseFloat_decimal:
  assumes "decimal_value s = Some v"
  shows "parseFloat s = round64 v"
proof -
  define neg where "neg = (s \<noteq> [] \<and> hd s = CHR ''-'')"
  define u where "u = (if s \<noteq> [] \<and> (hd s = CHR ''-'' \<or> hd s = CHR ''+'') then tl s else s)"
  from assms obtain w where w: "scan_unsigned u = Some (w, [])" "v = (if neg then - w else w)"
    unfolding decimal_value_def Let_def neg_def[symmetric] u_def[symmetric]
    by (auto split: option.splits if_splits)
  from scan_unsigned_start[OF w(1)] have u: "u \<noteq> []" "is_digit (hd u) \<or> hd u = CHR ''.''"
    by simp_all
  have s: "s \<noteq> []" using u(1) by (auto simp: u_def split: if_splits)
  have "\<not> is_space (hd s)"
    using u by (auto simp: u_def is_space_def is_digit_def split: if_splits)
  then have t: "dropWhile is_space s = s" using s by (cases s) simp_all
  have "take 8 u \<noteq> ''Infinity''"
    using u by (cases u) (auto simp: is_digit_def)
  then show ?thesis
    unfolding parseFloat_def Let_def t neg_def[symmetric] u_def[symmetric]
    by (simp add: w)
qed

lemma product_of_positive:
  assumes "0 < v"
  shows "times_number (round64 v) (round64 (95 / 100)) = PosInf
         \<or> (\<exists>r. times_number (round64 v) (round64 (95 / 100)) = Finite r \<and> 0 \<le> r)"
proof -
  define c :: rat where "c = 4278419646001971 / 4503599627370496"
  have c: "round64 (19 / 20) = Finite c" "0 < c" using literal_095 by (simp_all add: c_def)
  have nonneg: "0 \<le> r" if "0 \<le> q" "round64 q = Finite r" for q r
    using that round64_pos_nonneg[of q r]
    by (cases "q = 0") (auto simp: round64_def split: option.splits if_splits)
  have inf: "round64 q \<noteq> NegInf \<and> round64 q \<noteq> NaN" if "0 \<le> q" for q
    using that by (auto simp: round64_def split: option.splits)
  show ?thesis
  proof (cases "round64 v")
    case (Finite a)
    then have a: "0 \<le> a" using nonneg[of v a] assms by simp
    then have "0 \<le> a * c" using c(2) by simp
    from inf[OF this] nonneg[OF this] show ?thesis
      by (cases "round64 (a * c)") (simp_all add: Finite c(1))
  next
    case PosInf
    then show ?thesis using c by simp
  next
    case NegInf
    then show ?thesis using inf[of v] assms by simp
  next
    case NaN
    then show ?thesis using inf[of v] assms by simp
  qed
qed

text \<open>
  The product with \<open>0.95\<close> of a number between \<open>1e-300\<close> and \<open>1e300\<close> is finite and
  positive.
\<close>

lemma product_in_range:
  assumes lo: "1 / 10 ^ 300 \<le> v" and hi: "v \<le> 10 ^ 300"
  shows "\<exists>r. times_number (round64 v) (round64 (95 / 100)) = Finite r \<and> 0 < r"
proof -
  define c :: rat where "c = 4278419646001971 / 4503599627370496"
  have c: "round64 (19 / 20) = Finite c" "1 / 2 < c" "c < 1"
    using literal_095 by (simp_all add: c_def)
  define least :: rat where "least = power_int 2 (- 1022)"
  define most :: rat where "most = power_int 2 1023"
  define t :: rat where "t = 1 / 10 ^ 300"
  define T :: rat where "T = 10 ^ 300"
  have b1: "least \<le> t / 4"
    by (simp add: least_def t_def power_int_def power_one_over)
  have b2: "T * 2 < most"
    by (simp add: most_def T_def power_int_def)
  have t: "0 < t" "t \<le> v" using lo by (simp_all add: t_def)
  have T: "v \<le> T" using hi by (simp add: T_def)
  have vpos: "0 < v" using t by simp
  have "least \<le> v" using b1 t by linarith
  moreover have "v < most" using b2 T vpos by linarith
  ultimately obtain a where a: "round64 v = Finite a" "v / 2 < a" "a \<le> 2 * v"
    using round64_normal[of v] by (auto simp: least_def most_def)
  have apos: "0 < a" using a(2) vpos by simp
  have "a * (1 / 2) < a * c" using c(2) apos by (intro mult_strict_left_mono)
  then have l: "v / 4 < a * c" using a(2) by simp
  have "a * c < a * 1" using c(3) apos by (intro mult_strict_left_mono)
  then have u: "a * c < 2 * v" using a(3) by simp
  have "least \<le> a * c" using b1 t l by linarith
  moreover have "a * c < most" using b2 T u by linarith
  ultimately obtain r where r: "round64 (a * c) = Finite r" "a * c / 2 < r"
    using round64_normal[of "a * c"] by (auto simp: least_def most_def)
  have "0 < a * c" using l vpos by simp
  with r(2) have "0 < r" by simp
  with r(1) a(1) c(1) show ?thesis by simp
qed

text \<open>The text of a finite Number denotes a positive number exactly when the Number is positive.\<close>

lemma positive_decimal_printed:
  assumes f: "round64 x = Finite x"
  shows "positive_decimal (toString (Finite x)) = (0 < x)"
proof -
  consider "0 < x" | "x = 0" | "x < 0" by linarith
  then show ?thesis
  proof cases
    case 1
    from decimal_value_printed[OF 1 f] 1 show ?thesis
      by (auto simp: positive_decimal_def simp del: toString.simps)
  next
    case 2
    have "\<not> positive_decimal ''0''" by code_simp
    with 2 show ?thesis by simp
  next
    case 3
    then have p: "0 < - x" by simp
    have "round64 (- x) = Finite (- x)" using round64_minus[OF f] by simp
    from scan_printed[OF p this, of "[]"] obtain v c t where
      *: "toString (Finite (- x)) = c # t" "is_digit c"
      "scan_unsigned (toString (Finite (- x))) = Some (v, [])" "0 < v"
      by (auto simp: literal_ends_def)
    have "decimal_value (toString (Finite x)) = Some (- v)"
      unfolding toString_negative[OF 3] using *(3)
      by (simp add: decimal_value_def del: toString.simps)
    with *(4) 3 show ?thesis by (simp add: positive_decimal_def del: toString.simps)
  qed
qed

lemma positive_decimal_special:
  "\<not> positive_decimal ''NaN''" "\<not> positive_decimal ''Infinity''" "\<not> positive_decimal ''-Infinity''"
  by code_simp+

lemma positive_decimal_toString_times:
  "positive_decimal (toString (times_number x y))
     = (case times_number x y of Finite r \<Rightarrow> 0 < r | _ \<Rightarrow> False)"
proof (cases "times_number x y")
  case (Finite r)
  from times_number_finite[OF this] have "round64 r = Finite r" .
  from positive_decimal_printed[OF this] Finite show ?thesis by (simp del: toString.simps)
qed (simp_all add: positive_decimal_special)

lemma posted_order_data:
  assumes "submitOrder env st = Some effects" and "ord \<in> set (posted_orders effects)"
  shows "order_data ord = orderData env st"
  using submitOrder_posted[OF assms(1)] assms(2) by auto

lemma submit_amount_100: "submitOrder example_env (amount_state ''100'') = Some [posting (amount_order ''100'' ''95'')]"
  by code_simp

lemma submit_amount_3:
  "submitOrder example_env (amount_state ''3'') = Some [posting (amount_order ''3'' ''2.8499999999999996'')]"
  by code_simp

lemma submit_amount_empty:
  "submitOrder example_env (amount_state []) = Some [posting (amount_order [] ''NaN'')]"
  by code_simp

lemma submit_amount_negative:
  "submitOrder example_env (amount_state ''-5'') = Some [posting (amount_order ''-5'' ''-4.75'')]"
  by code_simp


text \<open>
  C2, as stated, fails.  For the amount \<^verbatim>\<open>3\<close> the page posts \<open>take_amount\<close>
  \<^verbatim>\<open>2.8499999999999996\<close>: the product of the binary64 numbers \<open>3\<close> and \<open>0.95\<close>,
  rounded, is not \<open>2.85\<close>.
\<close>

theorem exact_take_counterexample:
  "submitOrder example_env (amount_state ''3'')
     = Some [posting (amount_order ''3'' ''2.8499999999999996'')]
   \<and> make_amount (order_data (amount_order ''3'' ''2.8499999999999996'')) = ''3''
   \<and> take_amount (order_data (amount_order ''3'' ''2.8499999999999996'')) = ''2.8499999999999996''
   \<and> \<not> exact_take (order_data (amount_order ''3'' ''2.8499999999999996''))"
proof -
  have "\<not> exact_take (order_data (amount_order ''3'' ''2.8499999999999996''))"
    by code_simp
  then show ?thesis
    by (simp add: submit_amount_3 amount_order_def example_orderData_def)
qed

text \<open>
  C2, amended.  In every order that \<^verbatim>\<open>submitOrder\<close> posts, \<open>make_amount\<close> is the amount
  as typed and \<open>take_amount\<close> is the text that the runtime prints for the binary64 product
  of \<^verbatim>\<open>parseFloat(make_amount)\<close> and \<open>0.95\<close>, a product that is rounded to the nearest
  binary64 number: \<^verbatim>\<open>parseFloat\<close> reads \<open>take_amount\<close> back as exactly that product.  For
  the amount \<^verbatim>\<open>100\<close> the order has \<open>make_amount\<close> \<^verbatim>\<open>100\<close> and \<open>take_amount\<close> \<^verbatim>\<open>95\<close>.
\<close>

theorem take_amount_is_printed_product:
  assumes "submitOrder env st = Some effects" and "ord \<in> set (posted_orders effects)"
  shows "make_amount (order_data ord) = fromAmount st
    \<and> take_amount (order_data ord)
        = toString (times_number (parseFloat (make_amount (order_data ord))) (round64 (95 / 100)))
    \<and> parseFloat (take_amount (order_data ord))
        = times_number (parseFloat (make_amount (order_data ord))) (round64 (95 / 100))
    \<and> (if fromAmount st = ''100'' then take_amount (order_data ord) = ''95''
        else take_amount (order_data ord) = take_amount (orderData env st))"
proof -
  have od: "order_data ord = orderData env st" using assms by (rule posted_order_data)
  have m: "make_amount (orderData env st) = fromAmount st"
    and t: "take_amount (orderData env st)
              = toString (times_number (parseFloat (fromAmount st)) (round64 (95 / 100)))"
    by (simp_all add: orderData_def)
  have h: "toString (times_number (parseFloat ''100'') (round64 (95 / 100))) = ''95''"
    by code_simp
  have "parseFloat (take_amount (orderData env st))
          = times_number (parseFloat (fromAmount st)) (round64 (95 / 100))"
    unfolding t by (rule parseFloat_toString_times)
  with m t h show ?thesis unfolding od by (simp del: toString.simps)
qed

theorem take_amount_is_printed_product_witness:
  "submitOrder example_env (amount_state ''100'') = Some [posting (amount_order ''100'' ''95'')]
   \<and> amount_order ''100'' ''95'' \<in> set (posted_orders [posting (amount_order ''100'' ''95'')])
   \<and> make_amount (order_data (amount_order ''100'' ''95'')) = ''100''
   \<and> take_amount (order_data (amount_order ''100'' ''95'')) = ''95''
   \<and> parseFloat (take_amount (order_data (amount_order ''100'' ''95'')))
       = times_number (parseFloat (make_amount (order_data (amount_order ''100'' ''95''))))
           (round64 (95 / 100))"
proof -
  have m: "amount_order ''100'' ''95'' \<in> set (posted_orders [posting (amount_order ''100'' ''95'')])"
    by simp
  have f: "fromAmount (amount_state ''100'') = ''100''"
    by (simp add: amount_state_def)
  have a: "make_amount (order_data (amount_order ''100'' ''95'')) = ''100''"
    "take_amount (order_data (amount_order ''100'' ''95'')) = ''95''"
    by (simp_all add: amount_order_def example_orderData_def)
  from take_amount_is_printed_product[OF submit_amount_100 m]
  have "parseFloat (take_amount (order_data (amount_order ''100'' ''95'')))
       = times_number (parseFloat (make_amount (order_data (amount_order ''100'' ''95''))))
           (round64 (95 / 100))"
    by blast
  with a submit_amount_100 m show ?thesis by blast
qed

text \<open>
  C4, as stated, fails.  With an empty amount the page posts an order whose
  \<open>make_amount\<close> is the empty string and whose \<open>take_amount\<close> is \<^verbatim>\<open>NaN\<close>; with the
  amount \<^verbatim>\<open>-5\<close> it posts \<open>take_amount\<close> \<^verbatim>\<open>-4.75\<close>.  None of these denotes a positive
  number.
\<close>

theorem positive_amounts_counterexample:
  "submitOrder example_env (amount_state []) = Some [posting (amount_order [] ''NaN'')]
   \<and> make_amount (order_data (amount_order [] ''NaN'')) = []
   \<and> take_amount (order_data (amount_order [] ''NaN'')) = ''NaN''
   \<and> \<not> positive_decimal []
   \<and> \<not> positive_decimal ''NaN''
   \<and> submitOrder example_env (amount_state ''-5'') = Some [posting (amount_order ''-5'' ''-4.75'')]
   \<and> take_amount (order_data (amount_order ''-5'' ''-4.75'')) = ''-4.75''
   \<and> \<not> positive_decimal ''-4.75''"
proof -
  have "\<not> positive_decimal []" "\<not> positive_decimal ''NaN''" "\<not> positive_decimal ''-4.75''"
    by code_simp+
  then show ?thesis
    by (simp add: submit_amount_empty submit_amount_negative amount_order_def example_orderData_def)
qed

text \<open>
  C4, amended.  In every order that \<^verbatim>\<open>submitOrder\<close> posts, \<open>make_amount\<close> is the amount
  as typed and \<open>take_amount\<close> is the text of the binary64 product of
  \<^verbatim>\<open>parseFloat(fromAmount)\<close> and \<open>0.95\<close>; \<open>take_amount\<close> is a decimal string that denotes
  a positive number exactly when that product is a finite positive Number.  When the amount
  is a decimal string that denotes a number from \<open>1e-300\<close> to \<open>1e300\<close>, both
  \<open>make_amount\<close> and \<open>take_amount\<close> are decimal strings that denote positive numbers.
  For any amount that is a decimal string denoting a positive number, \<open>make_amount\<close> is
  one too, and \<open>take_amount\<close> either denotes a positive number, or the product is zero
  and \<open>take_amount\<close> is \<^verbatim>\<open>0\<close>, or the product is infinite and \<open>take_amount\<close> is
  \<^verbatim>\<open>Infinity\<close>.  When \<^verbatim>\<open>parseFloat\<close> finds no number in the amount, as for the empty
  string, \<open>take_amount\<close> is \<^verbatim>\<open>NaN\<close>.
\<close>

theorem amounts_of_positive_input:
  assumes "submitOrder env st = Some effects" and "ord \<in> set (posted_orders effects)"
  shows "make_amount (order_data ord) = fromAmount st
    \<and> take_amount (order_data ord)
        = toString (times_number (parseFloat (fromAmount st)) (round64 (95 / 100)))
    \<and> positive_decimal (take_amount (order_data ord))
        = (case times_number (parseFloat (fromAmount st)) (round64 (95 / 100)) of
             Finite r \<Rightarrow> 0 < r
           | _ \<Rightarrow> False)
    \<and> (amount_in_range (fromAmount st) \<longrightarrow>
          positive_decimal (make_amount (order_data ord))
          \<and> positive_decimal (take_amount (order_data ord)))
    \<and> (positive_decimal (fromAmount st) \<longrightarrow>
          positive_decimal (make_amount (order_data ord))
          \<and> (positive_decimal (take_amount (order_data ord))
             \<or> times_number (parseFloat (fromAmount st)) (round64 (95 / 100)) = Finite 0
                \<and> take_amount (order_data ord) = ''0''
             \<or> times_number (parseFloat (fromAmount st)) (round64 (95 / 100)) = PosInf
                \<and> take_amount (order_data ord) = ''Infinity''))
    \<and> (parseFloat (fromAmount st) = NaN \<longrightarrow> take_amount (order_data ord) = ''NaN'')"
proof -
  define p where "p = times_number (parseFloat (fromAmount st)) (round64 (95 / 100))"
  have od: "order_data ord = orderData env st" using assms by (rule posted_order_data)
  have m: "make_amount (order_data ord) = fromAmount st"
    and t: "take_amount (order_data ord) = toString p"
    by (simp_all add: od orderData_def p_def)
  have s: "positive_decimal (take_amount (order_data ord))
             = (case p of Finite r \<Rightarrow> 0 < r | _ \<Rightarrow> False)"
    unfolding t p_def by (rule positive_decimal_toString_times)
  have r: "positive_decimal (make_amount (order_data ord))
           \<and> positive_decimal (take_amount (order_data ord))"
    if "amount_in_range (fromAmount st)"
  proof -
    from that obtain v where v: "decimal_value (fromAmount st) = Some v"
      "1 / 10 ^ 300 \<le> v" "v \<le> 10 ^ 300"
      by (auto simp: amount_in_range_def split: option.splits)
    have "(0::rat) < 1 / 10 ^ 300" by simp
    from this v(2) have "0 < v" by (rule less_le_trans)
    then have 1: "positive_decimal (fromAmount st)" using v(1) by (simp add: positive_decimal_def)
    have "parseFloat (fromAmount st) = round64 v" using v(1) by (rule parseFloat_decimal)
    with product_in_range[OF v(2,3)] obtain q where "p = Finite q" "0 < q"
      by (auto simp: p_def)
    with s 1 m show ?thesis by simp
  qed
  have d: "positive_decimal (make_amount (order_data ord))
           \<and> (positive_decimal (take_amount (order_data ord))
              \<or> p = Finite 0 \<and> take_amount (order_data ord) = ''0''
              \<or> p = PosInf \<and> take_amount (order_data ord) = ''Infinity'')"
    if "positive_decimal (fromAmount st)"
  proof -
    from that obtain v where v: "decimal_value (fromAmount st) = Some v" "0 < v"
      by (auto simp: positive_decimal_def split: option.splits)
    have "parseFloat (fromAmount st) = round64 v" using v(1) by (rule parseFloat_decimal)
    with product_of_positive[OF v(2)] have "p = PosInf \<or> (\<exists>q. p = Finite q \<and> 0 \<le> q)"
      by (simp add: p_def)
    then consider "p = PosInf" | "p = Finite 0" | q where "p = Finite q" "0 < q"
      by (auto simp: order_le_less)
    then show ?thesis
    proof cases
      case 1
      with that m t show ?thesis by simp
    next
      case 2
      with that m t show ?thesis by simp
    next
      case 3
      with that m s show ?thesis by simp
    qed
  qed
  have n: "take_amount (order_data ord) = ''NaN''" if "parseFloat (fromAmount st) = NaN"
    using that by (simp add: t p_def)
  from m t s r d n show ?thesis unfolding p_def by blast
qed

theorem amounts_of_positive_input_witness:
  "submitOrder example_env (amount_state ''100'') = Some [posting (amount_order ''100'' ''95'')]
   \<and> amount_order ''100'' ''95'' \<in> set (posted_orders [posting (amount_order ''100'' ''95'')])
   \<and> amount_in_range (fromAmount (amount_state ''100''))
   \<and> positive_decimal (fromAmount (amount_state ''100''))
   \<and> times_number (parseFloat (fromAmount (amount_state ''100''))) (round64 (95 / 100)) = Finite 95
   \<and> positive_decimal (make_amount (order_data (amount_order ''100'' ''95'')))
   \<and> positive_decimal (take_amount (order_data (amount_order ''100'' ''95'')))
   \<and> submitOrder example_env (amount_state []) = Some [posting (amount_order [] ''NaN'')]
   \<and> amount_order [] ''NaN'' \<in> set (posted_orders [posting (amount_order [] ''NaN'')])
   \<and> parseFloat (fromAmount (amount_state [])) = NaN
   \<and> take_amount (order_data (amount_order [] ''NaN'')) = ''NaN''"
proof -
  have m: "amount_order ''100'' ''95'' \<in> set (posted_orders [posting (amount_order ''100'' ''95'')])"
    "amount_order [] ''NaN'' \<in> set (posted_orders [posting (amount_order [] ''NaN'')])"
    by simp_all
  have f: "fromAmount (amount_state ''100'') = ''100''" "fromAmount (amount_state []) = []"
    by (simp_all add: amount_state_def)
  have v: "decimal_value ''100'' = Some 100"
    by code_simp
  have g: "amount_in_range ''100''" "positive_decimal ''100''"
    by (simp_all add: amount_in_range_def positive_decimal_def v)
  have p: "times_number (parseFloat ''100'') (round64 (95 / 100)) = Finite 95"
    "parseFloat [] = NaN"
    by code_simp+
  note hundred = amounts_of_positive_input[OF submit_amount_100 m(1), unfolded f(1)]
  from hundred g(1)
  have 1: "positive_decimal (make_amount (order_data (amount_order ''100'' ''95'')))"
    "positive_decimal (take_amount (order_data (amount_order ''100'' ''95'')))"
    by blast+
  note empty = amounts_of_positive_input[OF submit_amount_empty m(2), unfolded f(2)]
  from empty p(2)
  have 2: "take_amount (order_data (amount_order [] ''NaN'')) = ''NaN''"
    by blast
  from 1 2 m g p submit_amount_100 submit_amount_empty show ?thesis
    unfolding f by blast
qed

subsection \<open>Encoding and decoding\<close>




end
